(* ===== verification/Sim_Prelude.thy ===== *)
theory Sim_Prelude
  imports Complex_Main "HOL-Library.AList"
begin

text \<open>
  Shared vocabulary of the development: the exceptions of the Python source as a
  datatype, results as sums, the monadic fold that models a \<^verbatim>\<open>for\<close> loop whose body
  may raise, Python dictionaries as insertion-ordered association lists, and the
  generic lemmas on lists and sums that the component theories use.
\<close>

section \<open>Fact collection\<close>

named_theorems dict_simps "laws of insertion-ordered dictionaries"

section \<open>Exceptions and results\<close>

text \<open>
  Every \<^verbatim>\<open>raise\<close> that the modelled functions can reach is one constructor. A
  computation that may raise returns \<open>py_error + 'a\<close>, with \<open>Inl\<close> for the exception.
\<close>

datatype py_error =
    ZeroDivisionError
  | OverflowError
  | ValueError
  | IndexError
  | KeyError
  | AttributeError

type_synonym 'a result = "py_error + 'a"

definition res_bind :: "'a result \<Rightarrow> ('a \<Rightarrow> 'b result) \<Rightarrow> 'b result" where
  "res_bind m f = (case m of Inl e \<Rightarrow> Inl e | Inr x \<Rightarrow> f x)"

definition is_ok :: "'a result \<Rightarrow> bool" where
  "is_ok m = (case m of Inl _ \<Rightarrow> False | Inr _ \<Rightarrow> True)"

text \<open>A \<^verbatim>\<open>for x in xs\<close> loop over a state: the body may raise, which ends the loop.\<close>

fun res_fold :: "('s \<Rightarrow> 'a \<Rightarrow> 's result) \<Rightarrow> 's \<Rightarrow> 'a list \<Rightarrow> 's result" where
  "res_fold f s [] = Inr s"
| "res_fold f s (x # xs) = res_bind (f s x) (\<lambda>s'. res_fold f s' xs)"

text \<open>
  A function applied to the elements of a list in order, as a comprehension or
  \<^verbatim>\<open>apply\<close> does: the first element on which it raises ends the computation.
\<close>

fun res_map :: "('a \<Rightarrow> 'b result) \<Rightarrow> 'a list \<Rightarrow> 'b list result" where
  "res_map f [] = Inr []"
| "res_map f (x # xs) = res_bind (f x) (\<lambda>y. res_bind (res_map f xs) (\<lambda>ys. Inr (y # ys)))"

text \<open>\<^verbatim>\<open>range(n)\<close>: empty for \<open>n \<le> 0\<close>.\<close>

definition py_range :: "int \<Rightarrow> int list" where
  "py_range n = map int [0..<nat n]"

section \<open>Dictionaries\<close>

text \<open>
  A Python \<^verbatim>\<open>dict\<close> iterates in insertion order, and the program depends on it (the
  order of the frequency table decides which job gets which range). A dictionary is
  an association list with distinct keys; \<^verbatim>\<open>d[k] = v\<close> is \<^const>\<open>AList.update\<close>, which
  overwrites in place or appends; \<^verbatim>\<open>d[k]\<close> raises \<^verbatim>\<open>KeyError\<close> on a missing key.
\<close>

type_synonym ('k, 'v) dict = "('k \<times> 'v) list"

abbreviation keys :: "('k, 'v) dict \<Rightarrow> 'k list" where
  "keys d \<equiv> map fst d"

abbreviation vals :: "('k, 'v) dict \<Rightarrow> 'v list" where
  "vals d \<equiv> map snd d"

abbreviation is_dict :: "('k, 'v) dict \<Rightarrow> bool" where
  "is_dict d \<equiv> distinct (map fst d)"

abbreviation dict_set :: "'k \<Rightarrow> 'v \<Rightarrow> ('k, 'v) dict \<Rightarrow> ('k, 'v) dict" where
  "dict_set \<equiv> AList.update"

definition dict_get :: "('k, 'v) dict \<Rightarrow> 'k \<Rightarrow> 'v result" where
  "dict_get d k = (case map_of d k of None \<Rightarrow> Inl KeyError | Some v \<Rightarrow> Inr v)"

section \<open>Lemmas on results\<close>

lemma res_bind_Inr [simp]: "res_bind (Inr x) f = f x"
  by (simp add: res_bind_def)

lemma res_bind_Inl [simp]: "res_bind (Inl e) f = Inl e"
  by (simp add: res_bind_def)

text \<open>
  For evaluation: simplify the first argument only, so that the simplifier enters the
  continuation after the value is known and not with an unknown state.
\<close>

lemma res_bind_weak_cong: "m = m' \<Longrightarrow> res_bind m f = res_bind m' f"
  by simp

lemma res_bind_eq_Inr:
  "res_bind m f = Inr y \<longleftrightarrow> (\<exists>x. m = Inr x \<and> f x = Inr y)"
  by (cases m) simp_all

lemma res_bind_eq_Inl:
  "res_bind m f = Inl e \<longleftrightarrow> m = Inl e \<or> (\<exists>x. m = Inr x \<and> f x = Inl e)"
  by (cases m) simp_all

lemma res_bind_assoc:
  "res_bind (res_bind m f) g = res_bind m (\<lambda>x. res_bind (f x) g)"
  by (cases m) simp_all

lemma is_ok_simps [simp]: "is_ok (Inr x)" "\<not> is_ok (Inl e)"
  by (simp_all add: is_ok_def)

lemma is_ok_iff: "is_ok m \<longleftrightarrow> (\<exists>x. m = Inr x)"
  by (cases m) simp_all

section \<open>Lemmas on loops\<close>

lemma res_fold_append:
  "res_fold f s (xs @ ys) = res_bind (res_fold f s xs) (\<lambda>s'. res_fold f s' ys)"
  by (induction xs arbitrary: s) (simp_all add: res_bind_assoc)

lemma res_fold_snoc:
  "res_fold f s (xs @ [x]) = res_bind (res_fold f s xs) (\<lambda>s'. f s' x)"
  by (simp add: res_fold_append res_bind_def split: sum.splits)

text \<open>
  The loop rule: a property that holds before the loop and is kept by every
  iteration that does not raise holds after a loop that does not raise.
\<close>

lemma res_fold_invariant:
  assumes "res_fold f s xs = Inr t" and "P s"
    and "\<And>s x s'. P s \<Longrightarrow> x \<in> set xs \<Longrightarrow> f s x = Inr s' \<Longrightarrow> P s'"
  shows "P t"
  using assms
proof (induction xs arbitrary: s)
  case Nil
  then show ?case by simp
next
  case (Cons x xs)
  from Cons.prems(1) obtain s' where s': "f s x = Inr s'" and rest: "res_fold f s' xs = Inr t"
    by (auto simp: res_bind_eq_Inr)
  from Cons.prems(2) s' have "P s'"
    by (auto intro: Cons.prems(3))
  with rest show ?case
    by (rule Cons.IH) (auto intro: Cons.prems(3))
qed

text \<open>A loop whose body never raises under the invariant does not raise.\<close>

lemma res_fold_ok:
  assumes "P s"
    and "\<And>s x. P s \<Longrightarrow> x \<in> set xs \<Longrightarrow> \<exists>s'. f s x = Inr s' \<and> P s'"
  shows "\<exists>t. res_fold f s xs = Inr t \<and> P t"
  using assms
proof (induction xs arbitrary: s)
  case Nil
  then show ?case by simp
next
  case (Cons x xs)
  from Cons.prems obtain s' where s': "f s x = Inr s'" "P s'"
    by (meson list.set_intros(1))
  from Cons.IH [OF s'(2)] Cons.prems(2) obtain t where "res_fold f s' xs = Inr t" "P t"
    by (meson list.set_intros(2))
  with s' show ?case by simp
qed

text \<open>
  The same two rules with the position in the list, for loops whose invariant counts
  the iterations done.
\<close>

lemma res_fold_indexed:
  assumes "res_fold f s xs = Inr t" and "P 0 s"
    and "\<And>i s s'. i < length xs \<Longrightarrow> P i s \<Longrightarrow> f s (xs ! i) = Inr s' \<Longrightarrow> P (Suc i) s'"
  shows "P (length xs) t"
  using assms
proof (induction xs arbitrary: s P)
  case Nil
  then show ?case by simp
next
  case (Cons x xs)
  from Cons.prems(1) obtain s1 where s1: "f s x = Inr s1" and rest: "res_fold f s1 xs = Inr t"
    by (auto simp: res_bind_eq_Inr)
  from Cons.prems(3) [of 0 s s1] Cons.prems(2) s1 have "P (Suc 0) s1" by simp
  with rest have "P (Suc (length xs)) t"
    by (rule Cons.IH [where P = "\<lambda>i. P (Suc i)"]) (use Cons.prems(3) in force)
  then show ?case by simp
qed

lemma res_fold_indexed_ok:
  assumes "P 0 s"
    and "\<And>i s. i < length xs \<Longrightarrow> P i s \<Longrightarrow> \<exists>s'. f s (xs ! i) = Inr s' \<and> P (Suc i) s'"
  shows "\<exists>t. res_fold f s xs = Inr t \<and> P (length xs) t"
  using assms
proof (induction xs arbitrary: s P)
  case Nil
  then show ?case by simp
next
  case (Cons x xs)
  from Cons.prems(2) [of 0 s] Cons.prems(1) obtain s1 where s1: "f s x = Inr s1" "P (Suc 0) s1"
    by auto
  have "\<exists>t. res_fold f s1 xs = Inr t \<and> P (Suc (length xs)) t"
    by (rule Cons.IH [where P = "\<lambda>i. P (Suc i)"]) (use s1 Cons.prems(2) in force)+
  with s1 show ?case by simp
qed

text \<open>
  The outcome of a loop whose iterations, under the invariant, either go on or raise
  an exception of a known kind: the loop ends with the invariant or raises an exception
  of that kind. A loop that raises has run at least one iteration.
\<close>

lemma res_fold_outcome:
  assumes "P 0 s"
    and "\<And>i s. i < length xs \<Longrightarrow> P i s \<Longrightarrow>
           (\<exists>s'. f s (xs ! i) = Inr s' \<and> P (Suc i) s') \<or> (\<exists>e. f s (xs ! i) = Inl e \<and> Q e)"
  shows "(\<exists>t. res_fold f s xs = Inr t \<and> P (length xs) t) \<or> (\<exists>e. res_fold f s xs = Inl e \<and> Q e)"
  using assms
proof (induction xs arbitrary: s P)
  case Nil
  then show ?case by simp
next
  case (Cons x xs)
  from Cons.prems(2) [of 0 s] Cons.prems(1)
  consider s1 where "f s x = Inr s1" "P (Suc 0) s1" | e where "f s x = Inl e" "Q e"
    by auto
  then show ?case
  proof cases
    case 1
    have "(\<exists>t. res_fold f s1 xs = Inr t \<and> P (Suc (length xs)) t) \<or>
          (\<exists>e. res_fold f s1 xs = Inl e \<and> Q e)"
      by (rule Cons.IH [where P = "\<lambda>i. P (Suc i)"]) (use 1 Cons.prems(2) in force)+
    with 1 show ?thesis by simp
  next
    case 2
    then show ?thesis by simp
  qed
qed

lemma res_fold_Inl_nonempty: "res_fold f s xs = Inl e \<Longrightarrow> xs \<noteq> []"
  by (cases xs) simp_all

text \<open>The outcome of a map: all elements succeed, or the error is one of an element.\<close>

lemma res_map_Inr:
  "res_map f xs = Inr ys \<longleftrightarrow> list_all2 (\<lambda>x y. f x = Inr y) xs ys"
proof (induction xs arbitrary: ys)
  case Nil
  show ?case by auto
next
  case (Cons x xs)
  show ?case by (cases ys) (auto simp: res_bind_eq_Inr Cons.IH)
qed

lemma res_map_ok_iff: "is_ok (res_map f xs) \<longleftrightarrow> (\<forall>x \<in> set xs. is_ok (f x))"
  by (induction xs) (auto simp: is_ok_iff res_bind_eq_Inr)

lemma res_map_length: "res_map f xs = Inr ys \<Longrightarrow> length ys = length xs"
  by (simp add: res_map_Inr list_all2_lengthD)

lemma res_map_nth:
  "res_map f xs = Inr ys \<Longrightarrow> i < length xs \<Longrightarrow> f (xs ! i) = Inr (ys ! i)"
  unfolding res_map_Inr by (rule list_all2_nthD)

lemma res_map_Inl:
  assumes "res_map f xs = Inl e"
  shows "\<exists>x \<in> set xs. f x = Inl e"
  using assms by (induction xs) (auto simp: res_bind_eq_Inl)

lemma res_map_total: "res_map (\<lambda>x. Inr (g x)) xs = Inr (map g xs)"
  by (induction xs) simp_all

lemma py_range_nonpos [simp]: "n \<le> 0 \<Longrightarrow> py_range n = []"
  by (simp add: py_range_def)

lemma length_py_range [simp]: "length (py_range n) = nat n"
  by (simp add: py_range_def)

lemma py_range_nonempty: "py_range n \<noteq> [] \<longleftrightarrow> 1 \<le> n"
  by (auto simp: py_range_def)

lemma py_range_Cons:
  assumes "1 \<le> n"
  shows "\<exists>rest. py_range n = 0 # rest"
proof -
  from assms have "0 < nat n" by simp
  then have "[0..<nat n] = 0 # [Suc 0..<nat n]" by (rule upt_conv_Cons)
  then show ?thesis by (simp add: py_range_def)
qed

text \<open>For evaluation: \<^verbatim>\<open>range(n)\<close> of a positive numeral, element by element.\<close>

lemma py_range_rec: "0 < n \<Longrightarrow> py_range n = py_range (n - 1) @ [n - 1]"
proof -
  assume "0 < n"
  then obtain k where k: "nat n = Suc k" by (cases "nat n") auto
  then have "nat (n - 1) = k" "int k = n - 1" by simp_all
  with k show ?thesis by (simp add: py_range_def)
qed

section \<open>Lemmas on dictionaries\<close>

lemma dict_get_Inr [dict_simps]: "dict_get d k = Inr v \<longleftrightarrow> map_of d k = Some v"
  by (simp add: dict_get_def split: option.splits)

lemma dict_get_Inl [dict_simps]: "dict_get d k = Inl e \<longleftrightarrow> e = KeyError \<and> k \<notin> set (keys d)"
  by (auto simp: dict_get_def map_of_eq_None_iff [symmetric] split: option.splits)

lemma dict_get_set_same [dict_simps]: "dict_get (dict_set k v d) k = Inr v"
  by (simp add: dict_get_def update_conv')

lemma dict_get_set_other [dict_simps]:
  "k' \<noteq> k \<Longrightarrow> dict_get (dict_set k v d) k' = dict_get d k'"
  by (simp add: dict_get_def update_conv')

lemma dict_set_fresh [dict_simps]: "k \<notin> set (keys d) \<Longrightarrow> dict_set k v d = d @ [(k, v)]"
  by (induction d) auto

lemma dict_set_last [dict_simps]:
  "k \<notin> set (keys d) \<Longrightarrow> dict_set k v (d @ [(k, w)]) = d @ [(k, v)]"
  by (induction d) auto

text \<open>A loop that sets fresh, pairwise different keys appends its entries in order.\<close>

lemma fold_dict_set_fresh:
  assumes "distinct (map f xs)" and "f ` set xs \<inter> set (keys d) = {}"
  shows "fold (\<lambda>x d. dict_set (f x) (g x) d) xs d = d @ map (\<lambda>x. (f x, g x)) xs"
  using assms
proof (induction xs arbitrary: d)
  case Nil
  then show ?case by simp
next
  case (Cons x xs)
  from Cons.prems(2) have k: "dict_set (f x) (g x) d = d @ [(f x, g x)]"
    by (intro dict_set_fresh) auto
  from Cons.prems have "f ` set xs \<inter> set (keys (d @ [(f x, g x)])) = {}" by auto
  with Cons.IH [of "d @ [(f x, g x)]"] Cons.prems(1) k show ?case by simp
qed

lemma is_dict_set [dict_simps]: "is_dict d \<Longrightarrow> is_dict (dict_set k v d)"
  by (rule distinct_update)

lemma keys_dict_set_present [dict_simps]: "k \<in> set (keys d) \<Longrightarrow> keys (dict_set k v d) = keys d"
  by (simp add: update_keys)

lemma length_dict_set_present [dict_simps]:
  "k \<in> set (keys d) \<Longrightarrow> length (dict_set k v d) = length d"
  by (metis keys_dict_set_present length_map)

lemma dict_set_last_key:
  assumes "is_dict (d @ [(k, w)])"
  shows "dict_set (last (keys (d @ [(k, w)]))) v (d @ [(k, w)]) = d @ [(k, v)]"
    and "dict_get (d @ [(k, w)]) (last (keys (d @ [(k, w)]))) = Inr w"
proof -
  from assms have k: "k \<notin> set (keys d)" by simp
  then show "dict_set (last (keys (d @ [(k, w)]))) v (d @ [(k, w)]) = d @ [(k, v)]"
    by (simp add: dict_set_last)
  from k have "map_of (d @ [(k, w)]) k = Some w"
    by (simp add: map_of_eq_None_iff [THEN iffD2] map_add_def)
  then show "dict_get (d @ [(k, w)]) (last (keys (d @ [(k, w)]))) = Inr w"
    by (simp add: dict_get_def)
qed

lemma sum_list_vals_dict_set:
  fixes d :: "('k, int) dict"
  shows "map_of d k = Some c \<Longrightarrow> sum_list (vals (dict_set k v d)) = sum_list (vals d) - c + v"
  by (induction d) auto

lemma set_keys_dict_set: "set (keys (dict_set k v d)) = insert k (set (keys d))"
  using dom_update [of k v d] by simp

lemma set_vals_dict_set: "set (vals (dict_set k v d)) \<subseteq> insert v (set (vals d))"
  by (induction d) auto

lemma vals_dict_set_ball:
  assumes "P v" and "\<forall>x \<in> set (vals d). P x"
  shows "\<forall>x \<in> set (vals (dict_set k v d)). P x"
  using assms set_vals_dict_set [of k v d] by blast

lemma map_of_in_vals: "map_of d k = Some v \<Longrightarrow> v \<in> set (vals d)"
  by (metis map_of_SomeD set_zip_rightD zip_map_fst_snd)

lemma in_keys_map_of: "k \<in> set (keys d) \<Longrightarrow> \<exists>v. map_of d k = Some v"
  by (cases "map_of d k") (simp_all add: map_of_eq_None_iff)

lemma map_of_in_keys: "map_of d k = Some v \<Longrightarrow> k \<in> set (keys d)"
  by (metis map_of_SomeD set_zip_leftD zip_map_fst_snd)

section \<open>Lemmas on lists of lists\<close>

lemma length_concat_uniform:
  "\<forall>q \<in> set xss. length q = m \<Longrightarrow> length (concat xss) = length xss * m"
  by (induction xss) simp_all

lemma concat_uniform_inj:
  assumes "length xss = length yss" and "concat xss = concat yss"
    and "\<forall>q \<in> set xss. length q = m" and "\<forall>q \<in> set yss. length q = m"
  shows "xss = yss"
  using assms by (induction xss yss rule: list_induct2) simp_all

section \<open>Lemmas on sums of integers\<close>

lemma member_le_sum_list_int:
  fixes xs :: "int list"
  assumes "\<forall>y \<in> set xs. 0 \<le> y" and "x \<in> set xs"
  shows "x \<le> sum_list xs"
  using assms
proof (induction xs)
  case Nil
  then show ?case by simp
next
  case (Cons a xs)
  then have "0 \<le> sum_list xs" by (intro sum_list_nonneg) simp
  with Cons show ?case by auto
qed

lemma sum_list_all_zero:
  fixes xs :: "int list"
  shows "\<forall>v \<in> set xs. v = 0 \<Longrightarrow> sum_list xs = 0"
  by (induction xs) simp_all

lemma sum_list_pos_int:
  fixes xs :: "int list"
  assumes "xs \<noteq> []" and "\<forall>y \<in> set xs. 1 \<le> y"
  shows "0 < sum_list xs"
proof -
  from assms(1) obtain x where x: "x \<in> set xs" by (cases xs) auto
  with assms(2) have "1 \<le> x" by simp
  also from assms(2) x have "x \<le> sum_list xs"
    by (intro member_le_sum_list_int) auto
  finally show ?thesis by simp
qed

end
