(* ===== verification/Py_Float.thy ===== *)
theory Py_Float
  imports Sim_Prelude "HOL-Library.Log_Nat"
begin

text \<open>
  Python floats, as far as \<^verbatim>\<open>src/app.py\<close> uses them: \<^verbatim>\<open>int / int\<close>, \<^verbatim>\<open>float * int\<close>,
  \<^verbatim>\<open>float + float\<close> and \<^verbatim>\<open>round(float)\<close>. A finite double is the rational it denotes;
  an operation computes the exact rational result and rounds it to the nearest
  double, ties to the even significand (\<open>fl64\<close>), as IEEE 754 prescribes and CPython
  implements for true division of integers. Results beyond the largest double become
  an infinity (or \<^verbatim>\<open>OverflowError\<close> for integer division). The two zeros are
  identified: no operation of the program tells them apart.
  All definitions are executable, so concrete runs evaluate inside the kernel.
\<close>

section \<open>Definitions\<close>

subsection \<open>\<^verbatim>\<open>round(x)\<close> with one argument\<close>

text \<open>Python 3 rounds a float to the nearest integer, and halves to the even neighbour.\<close>

definition round_half_even :: "rat \<Rightarrow> int" where
  "round_half_even x =
     (let f = \<lfloor>x\<rfloor>; r = x - of_int f
      in if r < 1/2 then f else if 1/2 < r then f + 1 else if even f then f else f + 1)"

subsection \<open>Rounding a rational to a double\<close>

text \<open>
  \<open>ilog2 x\<close> is the binary exponent \<open>e\<close> with \<open>2\<^sup>e \<le> \<bar>x\<bar> < 2\<^sup>e\<^sup>+\<^sup>1\<close>, computed from the bit
  lengths of numerator and denominator. A double has 53 significant bits and a least
  exponent of \<open>-1022\<close>, below which the spacing stays \<open>2\<^sup>-\<^sup>1\<^sup>0\<^sup>7\<^sup>4\<close> (subnormal numbers):
  \<open>ulp x\<close> is the spacing of the doubles around \<open>x\<close>.
\<close>

definition ilog2 :: "rat \<Rightarrow> int" where
  "ilog2 x =
     (case quotient_of \<bar>x\<bar> of (p, q) \<Rightarrow>
        let d = bitlen p - bitlen q in if 2 powi d \<le> \<bar>x\<bar> then d else d - 1)"

definition ulp_exp :: "rat \<Rightarrow> int" where
  "ulp_exp x = max (ilog2 x) (- 1022) - 52"

definition ulp :: "rat \<Rightarrow> rat" where
  "ulp x = 2 powi ulp_exp x"

definition fl64 :: "rat \<Rightarrow> rat" where
  "fl64 x = (if x = 0 then 0 else of_int (round_half_even (x / ulp x)) * ulp x)"

subsection \<open>Float values and the operations of the program\<close>

datatype pyfloat = Fin rat | PInf | NInf | NaN

definition dbl_limit :: rat where
  "dbl_limit = 2 ^ 1024"

definition to_float :: "rat \<Rightarrow> pyfloat" where
  "to_float x =
     (let y = fl64 x
      in if dbl_limit \<le> y then PInf else if y \<le> - dbl_limit then NInf else Fin y)"

text \<open>\<^verbatim>\<open>a / b\<close> on integers: the correctly rounded quotient, or an exception.\<close>

definition int_truediv :: "int \<Rightarrow> int \<Rightarrow> pyfloat result" where
  "int_truediv a b =
     (if b = 0 then Inl ZeroDivisionError
      else case to_float (of_int a / of_int b) of
             Fin y \<Rightarrow> Inr (Fin y)
           | _ \<Rightarrow> Inl OverflowError)"

fun float_mul :: "pyfloat \<Rightarrow> pyfloat \<Rightarrow> pyfloat" where
  "float_mul (Fin a) (Fin b) = to_float (a * b)"
| "float_mul NaN _ = NaN"
| "float_mul _ NaN = NaN"
| "float_mul (Fin a) PInf = (if a = 0 then NaN else if 0 < a then PInf else NInf)"
| "float_mul (Fin a) NInf = (if a = 0 then NaN else if 0 < a then NInf else PInf)"
| "float_mul PInf (Fin b) = (if b = 0 then NaN else if 0 < b then PInf else NInf)"
| "float_mul NInf (Fin b) = (if b = 0 then NaN else if 0 < b then NInf else PInf)"
| "float_mul PInf PInf = PInf"
| "float_mul PInf NInf = NInf"
| "float_mul NInf PInf = NInf"
| "float_mul NInf NInf = PInf"

fun float_add :: "pyfloat \<Rightarrow> pyfloat \<Rightarrow> pyfloat" where
  "float_add (Fin a) (Fin b) = to_float (a + b)"
| "float_add NaN _ = NaN"
| "float_add _ NaN = NaN"
| "float_add PInf NInf = NaN"
| "float_add NInf PInf = NaN"
| "float_add PInf _ = PInf"
| "float_add _ PInf = PInf"
| "float_add NInf _ = NInf"
| "float_add _ NInf = NInf"

text \<open>\<^verbatim>\<open>round\<close> raises on an infinity (\<^verbatim>\<open>OverflowError\<close>) and on a NaN (\<^verbatim>\<open>ValueError\<close>).\<close>

fun py_round :: "pyfloat \<Rightarrow> int result" where
  "py_round (Fin x) = Inr (round_half_even x)"
| "py_round PInf = Inl OverflowError"
| "py_round NInf = Inl OverflowError"
| "py_round NaN = Inl ValueError"

text \<open>The finite floats between \<open>lo\<close> and \<open>hi\<close>.\<close>

fun fin_between :: "rat \<Rightarrow> rat \<Rightarrow> pyfloat \<Rightarrow> bool" where
  "fin_between lo hi (Fin x) = (lo \<le> x \<and> x \<le> hi)"
| "fin_between lo hi _ = False"

fun float_le :: "pyfloat \<Rightarrow> pyfloat \<Rightarrow> bool" where
  "float_le NaN _ = False"
| "float_le _ NaN = False"
| "float_le NInf _ = True"
| "float_le _ PInf = True"
| "float_le (Fin a) (Fin b) = (a \<le> b)"
| "float_le _ _ = False"

section \<open>Rounding to an integer\<close>

lemma rhe_disj:
  "round_half_even x = \<lfloor>x\<rfloor> \<and> x - of_int \<lfloor>x\<rfloor> \<le> 1/2 \<or>
   round_half_even x = \<lfloor>x\<rfloor> + 1 \<and> 1/2 \<le> x - of_int \<lfloor>x\<rfloor>"
  unfolding round_half_even_def Let_def by (simp only: split: if_splits) linarith

lemma rhe_cases:
  obtains (down) "round_half_even x = \<lfloor>x\<rfloor>" "x - of_int \<lfloor>x\<rfloor> \<le> 1/2"
  | (up) "round_half_even x = \<lfloor>x\<rfloor> + 1" "1/2 \<le> x - of_int \<lfloor>x\<rfloor>"
  using rhe_disj [of x] by blast

lemma rhe_lower: "x - 1/2 \<le> of_int (round_half_even x)"
  by (cases x rule: rhe_cases) (simp; linarith)+

lemma rhe_upper: "of_int (round_half_even x) \<le> x + 1/2"
  by (cases x rule: rhe_cases) (simp; linarith)+

lemma rhe_of_int [simp]: "round_half_even (of_int n) = n"
  by (simp add: round_half_even_def)

lemma rhe_floor_le: "\<lfloor>x\<rfloor> \<le> round_half_even x"
  by (cases x rule: rhe_cases) simp_all

lemma rhe_le_floor: "round_half_even x \<le> \<lfloor>x\<rfloor> + 1"
  by (cases x rule: rhe_cases) simp_all

lemma rhe_mono: "x \<le> y \<Longrightarrow> round_half_even x \<le> round_half_even y"
proof -
  assume xy: "x \<le> y"
  then have "\<lfloor>x\<rfloor> \<le> \<lfloor>y\<rfloor>" by (rule floor_mono)
  then consider "\<lfloor>x\<rfloor> = \<lfloor>y\<rfloor>" | "\<lfloor>x\<rfloor> + 1 \<le> \<lfloor>y\<rfloor>" by linarith
  then show ?thesis
  proof cases
    case 1
    with xy show ?thesis
      by (auto simp: round_half_even_def Let_def)
  next
    case 2
    with rhe_le_floor [of x] rhe_floor_le [of y] show ?thesis by linarith
  qed
qed

lemma rhe_minus: "round_half_even (- x) = - round_half_even x"
proof (cases "x = of_int \<lfloor>x\<rfloor>")
  case True
  then have "- x = of_int (- \<lfloor>x\<rfloor>)" by simp
  then have "round_half_even (- x) = - \<lfloor>x\<rfloor>" by (simp only: rhe_of_int)
  moreover from True have "round_half_even x = \<lfloor>x\<rfloor>" by (metis rhe_of_int)
  ultimately show ?thesis by simp
next
  case False
  then have fl: "\<lfloor>- x\<rfloor> = - \<lfloor>x\<rfloor> - 1"
    by (simp add: floor_minus ceiling_altdef)
  show ?thesis
    unfolding round_half_even_def Let_def fl by (auto simp: field_simps)
qed

section \<open>The binary exponent\<close>

lemma bitlen_powi_bounds:
  assumes "0 < p"
  shows "2 powi (bitlen p - 1) \<le> (of_int p :: rat)" and "(of_int p :: rat) < 2 powi bitlen p"
proof -
  from assms have pos: "1 \<le> bitlen p"
    by (simp add: bitlen_alt_def)
  from bitlen_bounds [OF assms]
  have "(of_int (2 ^ nat (bitlen p - 1)) :: rat) \<le> of_int p" and "(of_int p :: rat) < of_int (2 ^ nat (bitlen p))"
    by (simp_all only: of_int_le_iff of_int_less_iff)
  with pos show "2 powi (bitlen p - 1) \<le> (of_int p :: rat)" and "(of_int p :: rat) < 2 powi bitlen p"
    by (simp_all add: power_int_nonneg_exp)
qed

lemma ilog2_bounds:
  assumes "x \<noteq> 0"
  shows "2 powi ilog2 x \<le> \<bar>x\<bar>" and "\<bar>x\<bar> < 2 powi (ilog2 x + 1)"
proof -
  obtain p q where pq: "quotient_of \<bar>x\<bar> = (p, q)"
    by (cases "quotient_of \<bar>x\<bar>")
  then have q: "0 < q" and x: "\<bar>x\<bar> = of_int p / of_int q"
    by (simp_all add: quotient_of_denom_pos quotient_of_div)
  from assms have "0 < (of_int p :: rat) / of_int q"
    by (simp flip: x)
  with q have p: "0 < p"
    by (simp add: zero_less_divide_iff)
  define d where "d = bitlen p - bitlen q"
  note bp = bitlen_powi_bounds [OF p] and bq = bitlen_powi_bounds [OF q]
  have lower: "2 powi (d - 1) < \<bar>x\<bar>"
  proof -
    have "2 powi (d - 1) = (2::rat) powi (bitlen p - 1) / 2 powi bitlen q"
      by (simp add: d_def power_int_diff)
    also have "\<dots> < of_int p / of_int q"
      using bp(1) bq(2) q by (intro frac_less2) simp_all
    finally show ?thesis by (simp add: x)
  qed
  have upper: "\<bar>x\<bar> < 2 powi (d + 1)"
  proof -
    have "of_int p / of_int q < (2::rat) powi bitlen p / 2 powi (bitlen q - 1)"
      using bp(2) bq(1) p by (intro frac_less) simp_all
    also have "\<dots> = 2 powi (bitlen p - (bitlen q - 1))"
      by (subst power_int_diff) simp_all
    also have "bitlen p - (bitlen q - 1) = d + 1"
      by (simp add: d_def)
    finally show ?thesis by (simp add: x)
  qed
  have il: "ilog2 x = (if 2 powi d \<le> \<bar>x\<bar> then d else d - 1)"
    by (simp add: ilog2_def pq d_def Let_def)
  from lower show "2 powi ilog2 x \<le> \<bar>x\<bar>"
    by (simp add: il)
  from upper show "\<bar>x\<bar> < 2 powi (ilog2 x + 1)"
    by (auto simp: il)
qed

lemma powi2_less_iff [simp]: "(2::rat) powi a < 2 powi b \<longleftrightarrow> a < b"
proof
  assume "(2::rat) powi a < 2 powi b"
  then show "a < b"
    using power_int_increasing [of b a "2::rat"] by (cases "a < b") simp_all
next
  assume "a < b"
  then show "(2::rat) powi a < 2 powi b"
    by (intro power_int_strict_increasing) simp_all
qed

lemma powi2_le_iff [simp]: "(2::rat) powi a \<le> 2 powi b \<longleftrightarrow> a \<le> b"
  using powi2_less_iff [of b a] by (simp only: not_less [symmetric])

lemma ilog2_unique:
  assumes "2 powi e \<le> \<bar>x\<bar>" and "\<bar>x\<bar> < 2 powi (e + 1)"
  shows "ilog2 x = e"
proof -
  have "0 < \<bar>x\<bar>"
    by (rule less_le_trans [OF _ assms(1)]) simp
  then have nz: "x \<noteq> 0" by simp
  note b = ilog2_bounds [OF nz]
  from b(1) assms(2) have "(2::rat) powi ilog2 x < 2 powi (e + 1)" by (rule le_less_trans)
  moreover from assms(1) b(2) have "(2::rat) powi e < 2 powi (ilog2 x + 1)" by (rule le_less_trans)
  ultimately show ?thesis by simp
qed

lemma ilog2_mono:
  assumes "x \<noteq> 0" and "\<bar>x\<bar> \<le> \<bar>y\<bar>"
  shows "ilog2 x \<le> ilog2 y"
proof -
  from assms have nz: "y \<noteq> 0" by auto
  have "(2::rat) powi ilog2 x \<le> \<bar>x\<bar>" by (rule ilog2_bounds [OF assms(1)])
  also note assms(2)
  also have "\<bar>y\<bar> < 2 powi (ilog2 y + 1)" by (rule ilog2_bounds [OF nz])
  finally show ?thesis by simp
qed

lemma ilog2_minus [simp]: "ilog2 (- x) = ilog2 x"
  by (simp add: ilog2_def)

lemma ilog2_powi [simp]: "ilog2 (2 powi e) = e"
  by (rule ilog2_unique) simp_all

section \<open>Rounding to a double\<close>

text \<open>
  The facts that the components use: \<open>fl64\<close> keeps the sign, is monotone, is within
  half a unit in the last place of its argument, and leaves doubles unchanged.
\<close>

lemma ulp_pos [simp]: "0 < ulp x"
  by (simp add: ulp_def)

lemma ulp_nonzero [simp]: "ulp x \<noteq> 0"
  by (simp add: ulp_def)

lemma ulp_minus [simp]: "ulp (- x) = ulp x"
  by (simp add: ulp_def ulp_exp_def)

lemma fl64_0 [simp]: "fl64 0 = 0"
  by (simp add: fl64_def)

lemma fl64_minus: "fl64 (- x) = - fl64 x"
  by (simp add: fl64_def rhe_minus)

lemma fl64_nonneg: "0 \<le> x \<Longrightarrow> 0 \<le> fl64 x"
proof -
  assume "0 \<le> x"
  then have "round_half_even 0 \<le> round_half_even (x / ulp x)"
    by (intro rhe_mono) (simp add: less_imp_le)
  then show ?thesis
    using rhe_of_int [of 0] by (simp add: fl64_def zero_le_mult_iff less_imp_le)
qed

lemma fl64_nonpos: "x \<le> 0 \<Longrightarrow> fl64 x \<le> 0"
  using fl64_nonneg [of "- x"] by (simp add: fl64_minus)

lemma fl64_error: "\<bar>fl64 x - x\<bar> \<le> ulp x / 2"
proof (cases "x = 0")
  case True
  then show ?thesis by (simp add: less_imp_le)
next
  case False
  let ?m = "of_int (round_half_even (x / ulp x)) :: rat"
  have "\<bar>?m - x / ulp x\<bar> \<le> 1 / 2"
    using rhe_lower [of "x / ulp x"] rhe_upper [of "x / ulp x"] by linarith
  then have "\<bar>?m - x / ulp x\<bar> * ulp x \<le> 1 / 2 * ulp x"
    by (intro mult_right_mono) (simp_all add: less_imp_le)
  also have "\<bar>?m - x / ulp x\<bar> * ulp x = \<bar>(?m - x / ulp x) * ulp x\<bar>"
    by (simp add: abs_mult less_imp_le)
  also have "(?m - x / ulp x) * ulp x = ?m * ulp x - x"
    by (simp add: left_diff_distrib)
  finally show ?thesis
    using False by (simp add: fl64_def)
qed

lemma ulp_eq: "ulp x = 2 powi (max (ilog2 x) (- 1022) - 52)"
  by (simp add: ulp_def ulp_exp_def)

lemma powi_split_53: "(2::rat) powi (E + 1) = 2 ^ 53 * 2 powi (E - 52)"
proof -
  have "(2::rat) powi (53 + (E - 52)) = 2 powi 53 * 2 powi (E - 52)"
    by (rule power_int_add) simp
  moreover have "53 + (E - 52) = E + 1" by simp
  ultimately have "(2::rat) powi (E + 1) = 2 powi 53 * 2 powi (E - 52)"
    by (simp only:)
  then show ?thesis by simp
qed

lemma powi_split_52: "(2::rat) powi E = 2 ^ 52 * 2 powi (E - 52)"
proof -
  have "(2::rat) powi (52 + (E - 52)) = 2 powi 52 * 2 powi (E - 52)"
    by (rule power_int_add) simp
  moreover have "52 + (E - 52) = E" by simp
  ultimately have "(2::rat) powi E = 2 powi 52 * 2 powi (E - 52)"
    by (simp only:)
  then show ?thesis by simp
qed

lemma fl64_pos_upper:
  assumes "0 < x"
  shows "fl64 x \<le> 2 powi (max (ilog2 x) (- 1022) + 1)"
proof -
  let ?E = "max (ilog2 x) (- 1022)"
  from assms have "x < 2 powi (ilog2 x + 1)"
    using ilog2_bounds(2) [of x] by simp
  also have "\<dots> \<le> 2 powi (?E + 1)" by simp
  also have "\<dots> = 2 ^ 53 * ulp x" by (simp only: powi_split_53 ulp_eq)
  finally have "x / ulp x \<le> of_int (2 ^ 53)"
    by (simp add: pos_divide_le_eq less_imp_le)
  then have "round_half_even (x / ulp x) \<le> 2 ^ 53"
    using rhe_mono rhe_of_int by metis
  then have "(of_int (round_half_even (x / ulp x)) :: rat) \<le> of_int (2 ^ 53)"
    by (simp only: of_int_le_iff)
  then have "of_int (round_half_even (x / ulp x)) * ulp x \<le> 2 ^ 53 * ulp x"
    by (intro mult_right_mono) (simp_all add: less_imp_le)
  with assms show ?thesis
    by (simp add: fl64_def powi_split_53 [of ?E] ulp_eq)
qed

lemma fl64_pos_lower:
  assumes "0 < x" and "- 1022 \<le> ilog2 x"
  shows "2 powi ilog2 x \<le> fl64 x"
proof -
  from assms(2) have u: "ulp x = 2 powi (ilog2 x - 52)"
    by (simp add: ulp_eq max_def)
  have "2 ^ 52 * ulp x = 2 powi ilog2 x"
    by (simp only: u powi_split_52 [symmetric])
  with assms have "2 ^ 52 * ulp x \<le> x"
    using ilog2_bounds(1) [of x] by simp
  then have "of_int (2 ^ 52) \<le> x / ulp x"
    by (simp add: pos_le_divide_eq)
  then have "2 ^ 52 \<le> round_half_even (x / ulp x)"
    using rhe_mono rhe_of_int by metis
  then have "(of_int (2 ^ 52) :: rat) \<le> of_int (round_half_even (x / ulp x))"
    by (simp only: of_int_le_iff)
  then have "2 ^ 52 * ulp x \<le> of_int (round_half_even (x / ulp x)) * ulp x"
    by (intro mult_right_mono) (simp_all add: less_imp_le)
  with assms show ?thesis
    by (simp add: fl64_def powi_split_52 [of "ilog2 x"] u)
qed

lemma fl64_mono_pos:
  assumes "0 < x" and "x \<le> y"
  shows "fl64 x \<le> fl64 y"
proof -
  let ?Ex = "max (ilog2 x) (- 1022)" and ?Ey = "max (ilog2 y) (- 1022)"
  from assms have y: "0 < y" by simp
  from assms have "ilog2 x \<le> ilog2 y"
    by (intro ilog2_mono) simp_all
  then consider "?Ex = ?Ey" | "?Ex < ?Ey" by linarith
  then show ?thesis
  proof cases
    case 1
    then have u: "ulp y = ulp x" by (simp only: ulp_eq)
    from assms(2) have "x / ulp x \<le> y / ulp x"
      by (simp add: divide_right_mono less_imp_le)
    then have "round_half_even (x / ulp x) \<le> round_half_even (y / ulp x)"
      by (rule rhe_mono)
    then have "(of_int (round_half_even (x / ulp x)) :: rat) * ulp x
        \<le> of_int (round_half_even (y / ulp x)) * ulp x"
      by (intro mult_right_mono) (simp_all add: less_imp_le)
    with assms(1) y show ?thesis by (simp add: fl64_def u)
  next
    case 2
    then have n: "- 1022 \<le> ilog2 y" and e: "?Ex + 1 \<le> ilog2 y" by linarith+
    have "fl64 x \<le> 2 powi (?Ex + 1)" by (rule fl64_pos_upper [OF assms(1)])
    also from e have "\<dots> \<le> 2 powi ilog2 y" by (simp only: powi2_le_iff)
    also have "\<dots> \<le> fl64 y" by (rule fl64_pos_lower [OF y n])
    finally show ?thesis .
  qed
qed

lemma fl64_mono:
  assumes "x \<le> y"
  shows "fl64 x \<le> fl64 y"
proof -
  consider "0 < x" | "x \<le> 0" "0 \<le> y" | "y < 0" by linarith
  then show ?thesis
  proof cases
    case 1
    then show ?thesis using assms by (rule fl64_mono_pos)
  next
    case 2
    then have "fl64 x \<le> 0" and "0 \<le> fl64 y"
      by (simp_all add: fl64_nonpos fl64_nonneg)
    then show ?thesis by simp
  next
    case 3
    with assms have "fl64 (- y) \<le> fl64 (- x)"
      by (intro fl64_mono_pos) simp_all
    then show ?thesis by (simp add: fl64_minus)
  qed
qed

lemma fl64_exact:
  assumes "x / ulp x = of_int m"
  shows "fl64 x = x"
proof -
  from assms have "of_int m * ulp x = x"
    by (simp add: nonzero_divide_eq_eq)
  with assms show ?thesis
    by (simp add: fl64_def)
qed

lemma fl64_1 [simp]: "fl64 1 = 1"
  by code_simp

lemma fl64_99 [simp]: "fl64 99 = 99"
  by code_simp

lemma fl64_representable:
  assumes "x = of_int m * 2 powi k" and "ulp_exp x \<le> k"
  shows "fl64 x = x"
proof (rule fl64_exact)
  define e where "e = ulp_exp x"
  have "(2::rat) powi k / 2 powi e = 2 powi (k - e)"
    by (subst power_int_diff) simp_all
  also from assms(2) have "\<dots> = 2 ^ nat (k - e)"
    by (simp add: power_int_nonneg_exp e_def)
  finally have q: "(2::rat) powi k / 2 powi e = of_int (2 ^ nat (k - e))"
    by simp
  have "x / ulp x = of_int m * (2 powi k / 2 powi e)"
    unfolding ulp_def e_def [symmetric] by (subst assms(1)) simp
  also have "\<dots> = of_int (m * 2 ^ nat (k - e))"
    unfolding q by (simp only: of_int_mult)
  finally show "x / ulp x = of_int (m * 2 ^ nat (k - e))" .
qed

lemma ilog2_less_iff:
  assumes "x \<noteq> 0"
  shows "ilog2 x < k \<longleftrightarrow> \<bar>x\<bar> < 2 powi k"
proof
  assume "ilog2 x < k"
  then have "(2::rat) powi (ilog2 x + 1) \<le> 2 powi k" by simp
  with ilog2_bounds(2) [OF assms] show "\<bar>x\<bar> < 2 powi k" by (rule less_le_trans)
next
  assume "\<bar>x\<bar> < 2 powi k"
  with ilog2_bounds(1) [OF assms] have "(2::rat) powi ilog2 x < 2 powi k" by (rule le_less_trans)
  then show "ilog2 x < k" by simp
qed

lemma fl64_of_int:
  assumes "\<bar>n\<bar> < 2 ^ 53"
  shows "fl64 (of_int n) = of_int n"
proof (cases "n = 0")
  case True
  then show ?thesis by simp
next
  case False
  from assms have "\<bar>of_int n :: rat\<bar> < of_int (2 ^ 53)"
    by (simp only: of_int_abs [symmetric] of_int_less_iff)
  then have "\<bar>of_int n :: rat\<bar> < 2 powi 53" by simp
  with False have "ilog2 (of_int n) < 53"
    by (simp add: ilog2_less_iff)
  then have "ulp_exp (of_int n) \<le> 0"
    by (simp add: ulp_exp_def)
  then show ?thesis
    by (intro fl64_representable [where m = n and k = 0]) simp_all
qed

lemma fl64_idem_pos:
  assumes "0 < x"
  shows "fl64 (fl64 x) = fl64 x"
proof -
  let ?E = "max (ilog2 x) (- 1022)"
  let ?m = "round_half_even (x / ulp x)"
  from assms have y: "fl64 x = of_int ?m * 2 powi (?E - 52)"
    by (simp add: fl64_def ulp_eq)
  have up: "fl64 x \<le> 2 powi (?E + 1)" by (rule fl64_pos_upper [OF assms])
  from assms have nn: "0 \<le> fl64 x" by (simp add: fl64_nonneg)
  show ?thesis
  proof (cases "fl64 x = 0")
    case True
    then show ?thesis by simp
  next
    case nz: False
    show ?thesis
    proof (cases "fl64 x = 2 powi (?E + 1)")
      case True
      have "fl64 (2 powi (?E + 1)) = 2 powi (?E + 1)"
        by (rule fl64_representable [where m = 1 and k = "?E + 1"]) (simp_all add: ulp_exp_def)
      with True show ?thesis by simp
    next
      case False
      with up nn have lt: "\<bar>fl64 x\<bar> < 2 powi (?E + 1)" by simp
      have "ilog2 (fl64 x) < ?E + 1"
        by (rule iffD2 [OF ilog2_less_iff [OF nz] lt])
      then have "ulp_exp (fl64 x) \<le> ?E - 52" by (simp add: ulp_exp_def)
      with y show ?thesis by (rule fl64_representable)
    qed
  qed
qed

lemma fl64_idem [simp]: "fl64 (fl64 x) = fl64 x"
proof -
  consider "0 < x" | "x = 0" | "0 < - x" by linarith
  then show ?thesis
  proof cases
    case 1
    then show ?thesis by (rule fl64_idem_pos)
  next
    case 2
    then show ?thesis by simp
  next
    case 3
    then have "fl64 (fl64 (- x)) = fl64 (- x)" by (rule fl64_idem_pos)
    then show ?thesis by (simp add: fl64_minus)
  qed
qed

lemma fl64_rel_error:
  assumes "x \<noteq> 0" and "- 1022 \<le> ilog2 x"
  shows "\<bar>fl64 x - x\<bar> \<le> \<bar>x\<bar> / 2 ^ 53"
proof -
  from assms(2) have "ulp x = 2 powi (ilog2 x - 52)"
    by (simp add: ulp_eq max_def)
  then have "2 ^ 52 * ulp x = 2 powi ilog2 x"
    by (simp only: powi_split_52 [symmetric])
  also have "\<dots> \<le> \<bar>x\<bar>" by (rule ilog2_bounds [OF assms(1)])
  finally have "ulp x / 2 \<le> \<bar>x\<bar> / 2 ^ 53" by simp
  with fl64_error [of x] show ?thesis by (rule order_trans)
qed

section \<open>Float operations\<close>

lemma dbl_limit_pos [simp]: "0 < dbl_limit"
  by (simp add: dbl_limit_def)

lemma to_float_Fin:
  "- dbl_limit < fl64 x \<Longrightarrow> fl64 x < dbl_limit \<Longrightarrow> to_float x = Fin (fl64 x)"
  by (simp add: to_float_def Let_def)

text \<open>
  A code equation that decides overflow by the exponent instead of comparing with
  \<open>2\<^sup>1\<^sup>0\<^sup>2\<^sup>4\<close>, so that evaluation stays cheap.
\<close>

lemma dbl_limit_le_iff: "y \<noteq> 0 \<Longrightarrow> dbl_limit \<le> \<bar>y\<bar> \<longleftrightarrow> 1024 \<le> ilog2 y"
  using ilog2_less_iff [of y 1024] by (simp add: dbl_limit_def not_less [symmetric])

lemma to_float_code [code]:
  "to_float x =
     (let y = fl64 x
      in if y \<noteq> 0 \<and> 1024 \<le> ilog2 y then (if 0 < y then PInf else NInf) else Fin y)"
proof (cases "fl64 x = 0")
  case True
  then show ?thesis by (simp add: to_float_def not_le)
next
  case False
  have pos: "0 < dbl_limit" by simp
  from False consider "0 < fl64 x" | "fl64 x < 0" by linarith
  then show ?thesis
  proof cases
    case 1
    with dbl_limit_le_iff [OF False] have "dbl_limit \<le> fl64 x \<longleftrightarrow> 1024 \<le> ilog2 (fl64 x)"
      by simp
    moreover from 1 pos have "\<not> fl64 x \<le> - dbl_limit" by linarith
    ultimately show ?thesis using 1 by (simp add: to_float_def Let_def)
  next
    case 2
    with dbl_limit_le_iff [OF False] have "fl64 x \<le> - dbl_limit \<longleftrightarrow> 1024 \<le> ilog2 (fl64 x)"
      by (simp add: abs_if) linarith
    moreover from 2 pos have "\<not> dbl_limit \<le> fl64 x" by linarith
    ultimately show ?thesis using 2 by (simp add: to_float_def Let_def)
  qed
qed

lemma to_float_unit:
  assumes "0 \<le> x" and "x \<le> 99"
  shows "to_float x = Fin (fl64 x)" and "0 \<le> fl64 x" and "fl64 x \<le> 99"
proof -
  from assms(1) show nn: "0 \<le> fl64 x" by (rule fl64_nonneg)
  from assms(2) have "fl64 x \<le> fl64 99" by (rule fl64_mono)
  then show le: "fl64 x \<le> 99" by simp
  have "(99::rat) < dbl_limit" by (simp add: dbl_limit_def)
  with nn le show "to_float x = Fin (fl64 x)"
    by (intro to_float_Fin) (auto intro: less_le_trans [OF _ nn] simp: neg_less_0_iff_less)
qed

lemma fl64_le_1: "x \<le> 1 \<Longrightarrow> fl64 x \<le> 1"
  using fl64_mono [of x 1] by simp

text \<open>Values that are computed exactly, for the evaluation of small runs.\<close>

lemma fl64_half [simp]: "fl64 (1 / 2) = 1 / 2"
  by code_simp

lemma to_float_exact: "fl64 x = x \<Longrightarrow> 0 \<le> x \<Longrightarrow> x \<le> 99 \<Longrightarrow> to_float x = Fin x"
  using to_float_unit(1) [of x] by simp

lemma float_add_zero_left: "float_add (Fin 0) (Fin (fl64 x)) = to_float (fl64 x)"
  by simp

lemma to_float_idem: "to_float x = Fin y \<Longrightarrow> to_float y = Fin y"
  by (auto simp: to_float_def Let_def split: if_splits)

lemma int_truediv_zero [simp]: "int_truediv a 0 = Inl ZeroDivisionError"
  by (simp add: int_truediv_def)

lemma int_truediv_Inr:
  "int_truediv a b = Inr p \<Longrightarrow> b \<noteq> 0 \<and> p = Fin (fl64 (of_int a / of_int b))"
  by (auto simp: int_truediv_def to_float_def Let_def split: if_splits pyfloat.splits)

lemma int_truediv_0_left: "b \<noteq> 0 \<Longrightarrow> int_truediv 0 b = Inr (Fin 0)"
  by (simp add: int_truediv_def to_float_def dbl_limit_def)

text \<open>A share of a positive total is a finite float between 0 and 1.\<close>

lemma int_truediv_share:
  assumes "0 \<le> a" and "a \<le> b" and "0 < b"
  shows "int_truediv a b = Inr (Fin (fl64 (of_int a / of_int b)))"
    and "0 \<le> fl64 (of_int a / of_int b)" and "fl64 (of_int a / of_int b) \<le> 1"
proof -
  let ?q = "of_int a / of_int b :: rat"
  from assms have q: "0 \<le> ?q" "?q \<le> 1"
    by (simp_all add: divide_le_eq_1)
  then show "0 \<le> fl64 ?q" and "fl64 ?q \<le> 1"
    by (simp_all add: fl64_nonneg fl64_le_1)
  from q have "to_float ?q = Fin (fl64 ?q)"
    by (intro to_float_unit) simp_all
  with assms(3) show "int_truediv a b = Inr (Fin (fl64 ?q))"
    by (simp add: int_truediv_def)
qed

lemma float_half_facts:
  "int_truediv 1 2 = Inr (Fin (1 / 2))"
  "int_truediv 0 2 = Inr (Fin 0)"
  "to_float (1 / 2) = Fin (1 / 2)"
  "to_float 1 = Fin 1"
  "to_float 0 = Fin 0"
  using int_truediv_share(1) [of 1 2]
  by (simp_all add: int_truediv_0_left to_float_exact)

lemma py_round_Inr: "py_round x = Inr n \<longleftrightarrow> (\<exists>y. x = Fin y \<and> n = round_half_even y)"
  by (cases x) auto

lemma float_le_refl: "x \<noteq> NaN \<Longrightarrow> float_le x x"
  by (cases x) simp_all

lemma float_le_trans: "float_le x y \<Longrightarrow> float_le y z \<Longrightarrow> float_le x z"
  by (cases x; cases y; cases z) simp_all

lemma to_float_mono: "x \<le> y \<Longrightarrow> float_le (to_float x) (to_float y)"
  using fl64_mono [of x y] by (auto simp: to_float_def Let_def)

section \<open>The error of one rounding\<close>

lemma fl64_error_below:
  assumes "\<bar>x\<bar> < 2 powi k" and "- 1021 \<le> k"
  shows "\<bar>fl64 x - x\<bar> \<le> 2 powi (k - 54)"
proof (cases "x = 0")
  case True
  then show ?thesis by simp
next
  case False
  with assms(1) have "ilog2 x < k" by (simp add: ilog2_less_iff)
  with assms(2) have "max (ilog2 x) (- 1022) - 52 \<le> k - 53" by simp
  then have "ulp x \<le> 2 powi (k - 53)" by (simp add: ulp_eq)
  also have "(2::rat) powi (k - 53) = 2 * 2 powi (k - 54)"
    using power_int_add [of "2::rat" 1 "k - 54"] by simp
  finally have "ulp x / 2 \<le> 2 powi (k - 54)" by simp
  with fl64_error [of x] show ?thesis by (rule order_trans)
qed

lemma fl64_share_error:
  assumes "0 \<le> x" and "x \<le> 1"
  shows "\<bar>fl64 x - x\<bar> \<le> 1 / 2 ^ 54"
proof (cases "x = 1")
  case True
  then show ?thesis by simp
next
  case False
  with assms have "\<bar>x\<bar> < 2 powi 0" by simp
  from fl64_error_below [OF this] show ?thesis by (simp add: power_int_minus divide_simps)
qed

lemma fl64_error_below_2:
  assumes "\<bar>y\<bar> < 2"
  shows "\<bar>fl64 y - y\<bar> \<le> 1 / 2 ^ 53" and "to_float y = Fin (fl64 y)"
proof -
  from assms have "\<bar>y\<bar> < 2 powi 1" by simp
  from fl64_error_below [OF this] show e: "\<bar>fl64 y - y\<bar> \<le> 1 / 2 ^ 53"
    by (simp add: power_int_minus divide_simps)
  have two: "fl64 2 = 2" "fl64 (- 2) = - 2"
    using fl64_of_int [of 2] fl64_of_int [of "- 2"] by simp_all
  from assms have "fl64 (- 2) \<le> fl64 y" and "fl64 y \<le> fl64 2"
    by (simp_all add: fl64_mono)
  then have "- 2 \<le> fl64 y" and "fl64 y \<le> 2"
    by (simp_all add: two)
  moreover have "(2::rat) < dbl_limit" by (simp add: dbl_limit_def)
  ultimately show "to_float y = Fin (fl64 y)"
    by (intro to_float_Fin) simp_all
qed

end
