(* ===== verification/Range_Allocator.thy ===== *)
theory Range_Allocator
  imports Py_Float
begin

text \<open>
  The range allocator, \<^verbatim>\<open>create_ranges\<close> of \<^verbatim>\<open>src/app.py\<close> (lines 16 to 33): the
  frequency table becomes a table of integer spans on the scale 1 to 99, one per job,
  in the order of the table.
\<close>

section \<open>Definitions\<close>

type_synonym 'k freq_table = "('k, int) dict"
type_synonym span = "int \<times> int"
type_synonym 'k range_table = "('k, span) dict"

text \<open>The variables that the loop updates: the table built so far and the cursor.\<close>

record 'k alloc_state =
  as_ranges :: "'k range_table"
  as_start :: int

text \<open>\<^verbatim>\<open>proportion = freq / total_frequency; range_size = round(proportion * 99)\<close>\<close>

definition range_size :: "int \<Rightarrow> int \<Rightarrow> int result" where
  "range_size freq total_frequency =
     res_bind (int_truediv freq total_frequency)
       (\<lambda>proportion. py_round (float_mul proportion (Fin 99)))"

text \<open>One iteration of the loop over \<^verbatim>\<open>job_data.items()\<close>.\<close>

definition alloc_step :: "int \<Rightarrow> 'k alloc_state \<Rightarrow> 'k \<times> int \<Rightarrow> 'k alloc_state result" where
  "alloc_step total_frequency s jf =
     (case jf of (job, freq) \<Rightarrow>
        res_bind (range_size freq total_frequency) (\<lambda>size.
          let end0 = as_start s + size - 1;
              end1 = (if end0 > 99 then 99 else end0)
          in Inr \<lparr>as_ranges = dict_set job (as_start s, end1) (as_ranges s),
                  as_start = end1 + 1\<rparr>))"

definition create_ranges :: "'k freq_table \<Rightarrow> ('k range_table \<times> int) result" where
  "create_ranges job_data =
     (let total_frequency = sum_list (vals job_data)
      in res_bind
           (res_fold (alloc_step total_frequency) \<lparr>as_ranges = [], as_start = 1\<rparr> job_data)
           (\<lambda>s. if as_ranges s = [] then Inl IndexError
                else let last_job = last (keys (as_ranges s))
                     in res_bind (dict_get (as_ranges s) last_job) (\<lambda>sp.
                          Inr (dict_set last_job (fst sp, 99) (as_ranges s), 99))))"

text \<open>
  The input that the user interface supplies: at least one job, each frequency at
  least 1, and (being a dictionary) no job twice.
\<close>

definition valid_freqs :: "'k freq_table \<Rightarrow> bool" where
  "valid_freqs job_data \<longleftrightarrow>
     job_data \<noteq> [] \<and> is_dict job_data \<and> list_all (\<lambda>f. 1 \<le> f) (vals job_data)"

text \<open>
  The contract of the range table. \<open>chain s spans e\<close>: the spans follow one another
  without gap or overlap, the first starts at \<open>s\<close>, the next free number after the
  last is \<open>e\<close>. A span \<open>(a, a - 1)\<close> is empty.
\<close>

fun chain :: "int \<Rightarrow> span list \<Rightarrow> int \<Rightarrow> bool" where
  "chain s [] e = (s = e)"
| "chain s ((a, b) # rest) e = (a = s \<and> s - 1 \<le> b \<and> chain (b + 1) rest e)"

definition in_span :: "int \<Rightarrow> span \<Rightarrow> bool" where
  "in_span n sp = (fst sp \<le> n \<and> n \<le> snd sp)"

definition partitions_scale :: "'k range_table \<Rightarrow> bool" where
  "partitions_scale rt \<longleftrightarrow> is_dict rt \<and> chain 1 (vals rt) 100"

text \<open>
  The invariant of the loop, for a valid table: the table built so far is a chain from
  1 to the cursor, and the cursor never passes 100.
\<close>

definition alloc_inv :: "'k alloc_state \<Rightarrow> bool" where
  "alloc_inv s \<longleftrightarrow>
     is_dict (as_ranges s) \<and> chain 1 (vals (as_ranges s)) (as_start s) \<and> as_start s \<le> 100"

section \<open>The size of one range\<close>

lemma range_size_share:
  assumes "0 \<le> f" and "f \<le> T" and "0 < T"
  shows "range_size f T = Inr (round_half_even (fl64 (fl64 (of_int f / of_int T) * 99)))"
    and "0 \<le> round_half_even (fl64 (fl64 (of_int f / of_int T) * 99))"
    and "round_half_even (fl64 (fl64 (of_int f / of_int T) * 99)) \<le> 99"
proof -
  let ?p = "fl64 (of_int f / of_int T)"
  note share = int_truediv_share [OF assms]
  from share(2,3) have p99: "0 \<le> ?p * 99" "?p * 99 \<le> 99" by simp_all
  note prod = to_float_unit [OF p99]
  from share(1) prod(1) show "range_size f T = Inr (round_half_even (fl64 (?p * 99)))"
    by (simp add: range_size_def)
  from prod(2) have "round_half_even 0 \<le> round_half_even (fl64 (?p * 99))"
    by (rule rhe_mono)
  then show "0 \<le> round_half_even (fl64 (?p * 99))"
    using rhe_of_int [of 0] by simp
  from prod(3) have "round_half_even (fl64 (?p * 99)) \<le> round_half_even 99"
    by (rule rhe_mono)
  then show "round_half_even (fl64 (?p * 99)) \<le> 99"
    using rhe_of_int [of 99] by simp
qed

section \<open>Chains of spans\<close>

lemma chain_append:
  "chain s (xs @ ys) e \<longleftrightarrow> (\<exists>m. chain s xs m \<and> chain m ys e)"
  by (induction xs arbitrary: s) auto

lemma chain_snoc:
  "chain s (xs @ [(a, b)]) e \<longleftrightarrow> chain s xs a \<and> a - 1 \<le> b \<and> e = b + 1"
  by (auto simp: chain_append)

lemma chain_le: "chain s xs e \<Longrightarrow> s \<le> e"
  by (induction xs arbitrary: s) (auto, force)

lemma chain_bounds:
  "chain s xs e \<Longrightarrow> (a, b) \<in> set xs \<Longrightarrow> s \<le> a \<and> a - 1 \<le> b \<and> b < e"
proof (induction xs arbitrary: s)
  case Nil
  then show ?case by simp
next
  case (Cons x xs)
  obtain c d where x: "x = (c, d)" by (cases x)
  with Cons.prems have c: "c = s" "s - 1 \<le> d" and rest: "chain (d + 1) xs e" by simp_all
  from rest have "d + 1 \<le> e" by (rule chain_le)
  with Cons.prems(2) x c Cons.IH [OF rest] show ?case by auto
qed

lemma chain_cover:
  "chain s xs e \<Longrightarrow> s \<le> n \<Longrightarrow> n < e \<Longrightarrow> \<exists>sp \<in> set xs. in_span n sp"
proof (induction xs arbitrary: s)
  case Nil
  then show ?case by simp
next
  case (Cons x xs)
  obtain c d where x: "x = (c, d)" by (cases x)
  with Cons.prems have c: "c = s" and rest: "chain (d + 1) xs e" by simp_all
  show ?case
  proof (cases "n \<le> d")
    case True
    with Cons.prems(2) x c show ?thesis by (simp add: in_span_def)
  next
    case False
    with Cons.IH [OF rest] Cons.prems(3) show ?thesis by simp
  qed
qed

text \<open>Spans of a chain are in increasing order: a later span lies above an earlier one.\<close>

lemma chain_ordered:
  assumes "chain s xs e" and "i < j" and "j < length xs"
  shows "snd (xs ! i) < fst (xs ! j)"
  using assms
proof (induction xs arbitrary: s i j)
  case Nil
  then show ?case by simp
next
  case (Cons x xs)
  obtain c d where x: "x = (c, d)" by (cases x)
  with Cons.prems have rest: "chain (d + 1) xs e" by simp
  from Cons.prems obtain j' where j: "j = Suc j'" by (cases j) simp_all
  show ?case
  proof (cases i)
    case 0
    from Cons.prems j have "xs ! j' \<in> set xs" by simp
    with chain_bounds [OF rest, of "fst (xs ! j')" "snd (xs ! j')"]
    have "d + 1 \<le> fst (xs ! j')" by simp
    with 0 j x show ?thesis by simp
  next
    case (Suc i')
    with Cons.prems j Cons.IH [OF rest, of i' j'] show ?thesis by simp
  qed
qed

lemma chain_disjoint:
  assumes "chain s xs e" and "i < length xs" and "j < length xs" and "i \<noteq> j"
  shows "\<not> (in_span n (xs ! i) \<and> in_span n (xs ! j))"
proof -
  from assms(4) consider "i < j" | "j < i" by linarith
  then show ?thesis
  proof cases
    case 1
    with chain_ordered [OF assms(1) 1 assms(3)] show ?thesis
      by (auto simp: in_span_def)
  next
    case 2
    with chain_ordered [OF assms(1) 2 assms(2)] show ?thesis
      by (auto simp: in_span_def)
  qed
qed

section \<open>The loop\<close>

lemma alloc_inv_init: "alloc_inv \<lparr>as_ranges = [], as_start = 1\<rparr>"
  by (simp add: alloc_inv_def)

lemma alloc_step_share:
  assumes inv: "alloc_inv s" and fresh: "job \<notin> set (keys (as_ranges s))"
    and f: "0 \<le> f" "f \<le> T" "0 < T"
  shows "\<exists>s'. alloc_step T s (job, f) = Inr s' \<and> alloc_inv s' \<and>
    keys (as_ranges s') = keys (as_ranges s) @ [job]"
proof -
  define sz where "sz = round_half_even (fl64 (fl64 (of_int f / of_int T) * 99))"
  define e where "e = (if as_start s + sz - 1 > 99 then 99 else as_start s + sz - 1)"
  define s' where "s' = \<lparr>as_ranges = dict_set job (as_start s, e) (as_ranges s), as_start = e + 1\<rparr>"
  note rs = range_size_share [OF f, folded sz_def]
  from rs(1) have step: "alloc_step T s (job, f) = Inr s'"
    by (simp add: alloc_step_def Let_def s'_def e_def)
  from fresh have app: "as_ranges s' = as_ranges s @ [(job, (as_start s, e))]"
    by (simp add: s'_def dict_set_fresh)
  from rs(2) have e: "as_start s - 1 \<le> e" "e \<le> 99"
    using inv by (auto simp: e_def alloc_inv_def)
  with inv fresh have "alloc_inv s'"
    by (simp add: alloc_inv_def app chain_snoc) (simp add: s'_def)
  with step app show ?thesis by simp
qed

lemma alloc_loop_share:
  assumes "alloc_inv s" and "distinct (keys (as_ranges s) @ keys jd)"
    and "\<forall>f \<in> set (vals jd). 0 \<le> f \<and> f \<le> T" and "0 < T"
  shows "\<exists>s'. res_fold (alloc_step T) s jd = Inr s' \<and> alloc_inv s' \<and>
    keys (as_ranges s') = keys (as_ranges s) @ keys jd"
  using assms(1-3)
proof (induction jd arbitrary: s)
  case Nil
  then show ?case by simp
next
  case (Cons jf jd)
  obtain job f where jf: "jf = (job, f)" by (cases jf)
  with Cons.prems have "job \<notin> set (keys (as_ranges s))" and "0 \<le> f" and "f \<le> T"
    by auto
  from alloc_step_share [OF Cons.prems(1) this assms(4)]
  obtain s1 where s1: "alloc_step T s (job, f) = Inr s1" "alloc_inv s1"
    "keys (as_ranges s1) = keys (as_ranges s) @ [job]" by blast
  with Cons.prems jf have "distinct (keys (as_ranges s1) @ keys jd)"
    and "\<forall>f \<in> set (vals jd). 0 \<le> f \<and> f \<le> T" by auto
  from Cons.IH [OF s1(2) this] s1 jf show ?case by auto
qed

section \<open>The whole function\<close>

lemma valid_freqs_total:
  assumes "valid_freqs jd"
  shows "0 < sum_list (vals jd)" and "\<forall>f \<in> set (vals jd). 0 \<le> f \<and> f \<le> sum_list (vals jd)"
proof -
  from assms have ne: "vals jd \<noteq> []" and ge: "\<forall>f \<in> set (vals jd). 1 \<le> f"
    by (auto simp: valid_freqs_def list_all_iff)
  then show "0 < sum_list (vals jd)" by (rule sum_list_pos_int)
  from ge have nn: "\<forall>y \<in> set (vals jd). 0 \<le> y"
    by (meson order_trans zero_le_one)
  show "\<forall>f \<in> set (vals jd). 0 \<le> f \<and> f \<le> sum_list (vals jd)"
  proof
    fix f
    assume f: "f \<in> set (vals jd)"
    with nn have "0 \<le> f" by blast
    moreover from nn f have "f \<le> sum_list (vals jd)" by (rule member_le_sum_list_int)
    ultimately show "0 \<le> f \<and> f \<le> sum_list (vals jd)" by simp
  qed
qed

text \<open>What the function returns on a valid frequency table, in one statement.\<close>

lemma create_ranges_valid:
  assumes "valid_freqs jd"
  shows "\<exists>rt. create_ranges jd = Inr (rt, 99) \<and> keys rt = keys jd \<and> partitions_scale rt"
proof -
  let ?T = "sum_list (vals jd)"
  from assms have d: "distinct (keys (as_ranges \<lparr>as_ranges = [], as_start = 1\<rparr>) @ keys jd)"
    by (simp add: valid_freqs_def)
  from alloc_loop_share [OF alloc_inv_init d valid_freqs_total(2,1) [OF assms]]
  obtain s where loop: "res_fold (alloc_step ?T) \<lparr>as_ranges = [], as_start = 1\<rparr> jd = Inr s"
    and inv: "alloc_inv s" and ks: "keys (as_ranges s) = keys jd" by auto
  from assms ks have "as_ranges s \<noteq> []" by (auto simp: valid_freqs_def)
  then obtain xs k a b where rs: "as_ranges s = xs @ [(k, (a, b))]"
    by (metis rev_exhaust surj_pair)
  from inv have dict: "is_dict (xs @ [(k, (a, b))])"
    and ch: "chain 1 (vals xs) a" and a: "a \<le> 100"
    by (auto simp: alloc_inv_def rs chain_snoc)
  let ?rt = "xs @ [(k, (a, 99))]"
  from loop rs dict_set_last_key [OF dict] have "create_ranges jd = Inr (?rt, 99)"
    by (simp add: create_ranges_def Let_def)
  moreover from ks rs have "keys ?rt = keys jd" by simp
  moreover from dict ch a have "partitions_scale ?rt"
    by (simp add: partitions_scale_def chain_snoc)
  ultimately show ?thesis by blast
qed

section \<open>Any input\<close>

lemma alloc_step_dict:
  "alloc_step T s jf = Inr s' \<Longrightarrow> is_dict (as_ranges s) \<Longrightarrow> is_dict (as_ranges s')"
  by (auto simp: alloc_step_def res_bind_eq_Inr Let_def is_dict_set split: prod.splits)

lemma alloc_loop_dict:
  "res_fold (alloc_step T) s jd = Inr s' \<Longrightarrow> is_dict (as_ranges s) \<Longrightarrow> is_dict (as_ranges s')"
  by (erule res_fold_invariant [where P = "\<lambda>s. is_dict (as_ranges s)"])
    (auto intro: alloc_step_dict)

lemma alloc_loop_nonempty:
  "res_fold (alloc_step T) s jd = Inr s' \<Longrightarrow> jd \<noteq> [] \<or> as_ranges s \<noteq> [] \<Longrightarrow> as_ranges s' \<noteq> []"
proof (induction jd arbitrary: s)
  case Nil
  then show ?case by simp
next
  case (Cons jf jd)
  from Cons.prems(1) obtain s1 where s1: "alloc_step T s jf = Inr s1"
    and rest: "res_fold (alloc_step T) s1 jd = Inr s'"
    by (auto simp: res_bind_eq_Inr)
  from s1 have "as_ranges s1 \<noteq> []"
    by (auto simp: alloc_step_def res_bind_eq_Inr Let_def split: prod.splits)
  with Cons.IH [OF rest] show ?case by simp
qed

lemma range_size_Inl:
  assumes "range_size f T = Inl e"
  shows "e = ZeroDivisionError \<and> T = 0 \<or> e = OverflowError \<and> T \<noteq> 0"
proof (cases "T = 0")
  case True
  with assms show ?thesis by (simp add: range_size_def)
next
  case False
  show ?thesis
  proof (cases "int_truediv f T")
    case (Inl e')
    with assms False show ?thesis
      by (auto simp: range_size_def int_truediv_def split: pyfloat.splits)
  next
    case (Inr p)
    then obtain y where "p = Fin y" by (auto dest: int_truediv_Inr)
    with assms Inr False show ?thesis
      by (auto simp: range_size_def to_float_def Let_def split: if_splits)
  qed
qed

lemma alloc_loop_Inl:
  assumes "res_fold (alloc_step T) s jd = Inl e"
  shows "jd \<noteq> [] \<and> (e = ZeroDivisionError \<and> T = 0 \<or> e = OverflowError \<and> T \<noteq> 0)"
  using assms
proof (induction jd arbitrary: s)
  case Nil
  then show ?case by simp
next
  case (Cons jf jd)
  show ?case
  proof (cases "alloc_step T s jf")
    case (Inl e')
    with Cons.prems have "e' = e" by simp
    with Inl obtain job f where "range_size f T = Inl e"
      by (auto simp: alloc_step_def res_bind_eq_Inl Let_def split: prod.splits)
    then show ?thesis by (auto dest: range_size_Inl)
  next
    case (Inr s1)
    with Cons.prems Cons.IH [of s1] show ?thesis by simp
  qed
qed

lemma create_ranges_Inr_shape:
  assumes "create_ranges jd = Inr (rt, tr)"
  shows "\<exists>s xs k a b. res_fold (alloc_step (sum_list (vals jd))) \<lparr>as_ranges = [], as_start = 1\<rparr> jd = Inr s
    \<and> as_ranges s = xs @ [(k, (a, b))] \<and> is_dict (as_ranges s) \<and> rt = xs @ [(k, (a, 99))] \<and> tr = 99"
proof -
  let ?T = "sum_list (vals jd)"
  from assms obtain s where loop: "res_fold (alloc_step ?T) \<lparr>as_ranges = [], as_start = 1\<rparr> jd = Inr s"
    and ne: "as_ranges s \<noteq> []"
    and fin: "res_bind (dict_get (as_ranges s) (last (keys (as_ranges s))))
       (\<lambda>sp. Inr (dict_set (last (keys (as_ranges s))) (fst sp, 99) (as_ranges s), 99)) = Inr (rt, tr)"
    by (auto simp: create_ranges_def Let_def res_bind_eq_Inr split: if_splits)
  from ne obtain xs k a b where rs: "as_ranges s = xs @ [(k, (a, b))]"
    by (metis rev_exhaust surj_pair)
  from loop have dict: "is_dict (as_ranges s)" by (rule alloc_loop_dict) simp
  with rs have "is_dict (xs @ [(k, (a, b))])" by simp
  from fin dict_set_last_key [OF this] rs have "rt = xs @ [(k, (a, 99))]" "tr = 99"
    by simp_all
  with loop rs dict show ?thesis by blast
qed

text \<open>On a partition of the scale a number has one owner.\<close>

lemma partition_owner_unique:
  assumes "partitions_scale rt" and "(j1, sp1) \<in> set rt" and "(j2, sp2) \<in> set rt"
    and "in_span n sp1" and "in_span n sp2"
  shows "j1 = j2 \<and> sp1 = sp2"
proof -
  from assms(2,3) obtain i1 i2 where i: "i1 < length rt" "rt ! i1 = (j1, sp1)"
    "i2 < length rt" "rt ! i2 = (j2, sp2)"
    by (auto simp: in_set_conv_nth)
  from assms(1) have ch: "chain 1 (vals rt) 100" by (simp add: partitions_scale_def)
  have "i1 = i2"
  proof (rule ccontr)
    assume "i1 \<noteq> i2"
    with chain_disjoint [OF ch, of i1 i2 n] i assms(4,5) show False by simp
  qed
  with i show ?thesis by simp
qed

lemma partition_owner_exists:
  assumes "partitions_scale rt" and "1 \<le> n" and "n \<le> 99"
  shows "\<exists>job sp. (job, sp) \<in> set rt \<and> in_span n sp"
proof -
  from assms(1) have ch: "chain 1 (vals rt) 100" by (simp add: partitions_scale_def)
  from assms(2,3) have "\<exists>sp \<in> set (vals rt). in_span n sp"
    by (intro chain_cover [OF ch]) simp_all
  then obtain sp where sp: "sp \<in> set (vals rt)" and n: "in_span n sp" by blast
  from sp have "sp \<in> snd ` set rt" by simp
  then obtain p where "p \<in> set rt" and "sp = snd p" by blast
  then have "(fst p, sp) \<in> set rt" by simp
  with n show ?thesis by blast
qed

section \<open>Evaluation\<close>

text \<open>
  Concrete tables evaluate inside the kernel: the size of each range by the code
  equations, the loop by the simplifier.
\<close>

lemmas create_ranges_eval = create_ranges_def alloc_step_def Let_def dict_get_def

lemma range_size_1_2: "range_size 1 2 = Inr 50"
  by code_simp

lemma valid_two_jobs: "valid_freqs [(''A'', 1), (''B'', 1)]"
  by (simp add: valid_freqs_def)

lemma create_ranges_two_jobs:
  "create_ranges [(''A'', 1), (''B'', 1)] = Inr ([(''A'', (1, 50)), (''B'', (51, 99))], 99)"
  by (simp add: create_ranges_eval range_size_1_2 cong: res_bind_weak_cong)

lemma create_ranges_empty: "create_ranges [] = Inl IndexError"
  by (simp add: create_ranges_def)

section \<open>Properties of the range allocator\<close>

text \<open>
  C1. On a valid frequency table (\<open>valid_freqs\<close>: not empty, no job twice, every
  frequency at least 1) whatever \<^verbatim>\<open>create_ranges\<close> returns is the scale size 99 and a
  table with the jobs of the frequency table in the same order, whose spans form a
  partition of 1..99: the first starts at 1, each next one starts right after the one
  before, the last ends at 99.
\<close>

theorem create_ranges_partition:
  assumes "valid_freqs jd" and "create_ranges jd = Inr (rt, tr)"
  shows "tr = 99 \<and> keys rt = keys jd \<and> partitions_scale rt"
  using create_ranges_valid [OF assms(1)] assms(2) by auto

theorem create_ranges_partition_witness:
  "valid_freqs [(''A'', 1), (''B'', 1)] \<and>
   create_ranges [(''A'', 1), (''B'', 1)] = Inr ([(''A'', (1, 50)), (''B'', (51, 99))], 99) \<and>
   keys [(''A'', (1::int, 50::int)), (''B'', (51, 99))] = keys [(''A'', 1::int), (''B'', 1)] \<and>
   partitions_scale [(''A'', (1, 50)), (''B'', (51, 99))]"
  using create_ranges_partition [OF valid_two_jobs create_ranges_two_jobs]
    valid_two_jobs create_ranges_two_jobs by simp

text \<open>
  C26. On a valid frequency table every number of the scale 1..\<^verbatim>\<open>total_range\<close> lies in
  the span of exactly one entry of the table that \<^verbatim>\<open>create_ranges\<close> returns: the spans
  cover the scale and no two of them overlap, also when rounding has overrun the scale
  and later jobs have got empty spans.
\<close>

theorem create_ranges_owner:
  assumes "valid_freqs jd" and "create_ranges jd = Inr (rt, tr)" and "1 \<le> n" and "n \<le> tr"
  shows "\<exists>!p. p \<in> set rt \<and> in_span n (snd p)"
proof -
  from create_ranges_valid [OF assms(1)] assms(2)
  have tr: "tr = 99" and part: "partitions_scale rt" by auto
  from partition_owner_exists [OF part assms(3)] assms(4) tr
  obtain job sp where own: "(job, sp) \<in> set rt" "in_span n sp" by auto
  show ?thesis
  proof (rule ex1I [of _ "(job, sp)"])
    from own show "(job, sp) \<in> set rt \<and> in_span n (snd (job, sp))" by simp
  next
    fix p
    assume p: "p \<in> set rt \<and> in_span n (snd p)"
    then have m: "(fst p, snd p) \<in> set rt" and ip: "in_span n (snd p)" by simp_all
    from partition_owner_unique [OF part m own(1) ip own(2)] show "p = (job, sp)"
      by (simp add: prod_eq_iff)
  qed
qed

theorem create_ranges_owner_witness:
  "valid_freqs [(''A'', 1), (''B'', 1)] \<and>
   create_ranges [(''A'', 1), (''B'', 1)] = Inr ([(''A'', (1, 50)), (''B'', (51, 99))], 99) \<and>
   (\<exists>!p. p \<in> set [(''A'', (1, 50)), (''B'', (51, 99))] \<and> in_span 60 (snd p))"
  using create_ranges_owner [OF valid_two_jobs create_ranges_two_jobs, of 60]
    valid_two_jobs create_ranges_two_jobs by simp

text \<open>
  C17. \<^verbatim>\<open>create_ranges\<close> raises no exception on a valid frequency table: the
  total is positive, every share is between 0 and 1, so neither the division nor the
  rounding can fail, and the table is not empty when its last entry is read.
\<close>

theorem create_ranges_succeeds:
  assumes "valid_freqs jd"
  shows "is_ok (create_ranges jd)"
  using create_ranges_valid [OF assms] by auto

theorem create_ranges_succeeds_witness:
  "valid_freqs [(''A'', 1), (''B'', 1)] \<and> is_ok (create_ranges [(''A'', 1), (''B'', 1)])"
  using create_ranges_succeeds [OF valid_two_jobs] valid_two_jobs by simp

text \<open>
  C36. Whatever the input, valid or not: when \<^verbatim>\<open>create_ranges\<close> returns, the scale size
  is 99, the table is not empty, it is a dictionary, and its last entry ends at 99
  (the overwrite after the loop).
\<close>

theorem create_ranges_last_end:
  assumes "create_ranges jd = Inr (rt, tr)"
  shows "tr = 99 \<and> rt \<noteq> [] \<and> snd (snd (last rt)) = 99 \<and> is_dict rt"
  using create_ranges_Inr_shape [OF assms] by auto

theorem create_ranges_last_end_witness:
  "create_ranges [(''A'', 1), (''B'', 1)] = Inr ([(''A'', (1, 50)), (''B'', (51, 99))], 99) \<and>
   snd (snd (last [(''A'', (1::int, 50::int)), (''B'', (51, 99))])) = 99 \<and>
   is_dict [(''A'', (1::int, 50::int)), (''B'', (51, 99))]"
  using create_ranges_last_end [OF create_ranges_two_jobs] create_ranges_two_jobs by simp

text \<open>
  C27. The exceptions of \<^verbatim>\<open>create_ranges\<close>, all of them: \<^verbatim>\<open>IndexError\<close> exactly on the
  empty table (reading the last key of an empty dictionary), \<^verbatim>\<open>ZeroDivisionError\<close>
  only on a non-empty table whose frequencies sum to 0, \<^verbatim>\<open>OverflowError\<close> only when
  the total is not 0 (a quotient or a product beyond the largest float). No input
  validation error is raised.
\<close>

theorem create_ranges_errors:
  assumes "create_ranges jd = Inl e"
  shows "e = IndexError \<and> jd = [] \<or>
     e = ZeroDivisionError \<and> jd \<noteq> [] \<and> sum_list (vals jd) = 0 \<or>
     e = OverflowError \<and> jd \<noteq> [] \<and> sum_list (vals jd) \<noteq> 0"
proof -
  let ?T = "sum_list (vals jd)"
  let ?loop = "res_fold (alloc_step ?T) \<lparr>as_ranges = [], as_start = 1\<rparr> jd"
  show ?thesis
  proof (cases ?loop)
    case (Inl e')
    with assms have "e' = e" by (simp add: create_ranges_def Let_def)
    with Inl show ?thesis by (auto dest: alloc_loop_Inl)
  next
    case (Inr s)
    show ?thesis
    proof (cases "as_ranges s = []")
      case True
      with Inr alloc_loop_nonempty [OF Inr] have "jd = []" by auto
      moreover from assms Inr True have "e = IndexError" by (simp add: create_ranges_def Let_def)
      ultimately show ?thesis by simp
    next
      case False
      then obtain xs k a b where rs: "as_ranges s = xs @ [(k, (a, b))]"
        by (metis rev_exhaust surj_pair)
      from Inr have "is_dict (as_ranges s)" by (rule alloc_loop_dict) simp
      with rs have "is_dict (xs @ [(k, (a, b))])" by simp
      from dict_set_last_key [OF this] assms Inr False rs show ?thesis
        by (simp add: create_ranges_def Let_def)
    qed
  qed
qed

theorem create_ranges_errors_witness:
  "create_ranges ([] :: (string, int) dict) = Inl IndexError \<and>
   (IndexError = IndexError \<and> ([] :: (string, int) dict) = [] \<or>
    IndexError = ZeroDivisionError \<and> ([] :: (string, int) dict) \<noteq> [] \<and> sum_list (vals ([] :: (string, int) dict)) = 0 \<or>
    IndexError = OverflowError \<and> ([] :: (string, int) dict) \<noteq> [] \<and> sum_list (vals ([] :: (string, int) dict)) \<noteq> 0)"
  using create_ranges_errors [OF create_ranges_empty [where ?'a = string]] create_ranges_empty by simp

text \<open>
  C37. A non-empty table whose frequencies sum to 0 makes \<^verbatim>\<open>create_ranges\<close> raise
  \<^verbatim>\<open>ZeroDivisionError\<close> in the first iteration.
\<close>

theorem create_ranges_zero_total:
  assumes "jd \<noteq> []" and "sum_list (vals jd) = 0"
  shows "create_ranges jd = Inl ZeroDivisionError"
proof -
  from assms(1) obtain job f rest where jd: "jd = (job, f) # rest"
    by (cases jd) auto
  have "alloc_step 0 s (job, f) = Inl ZeroDivisionError" for s :: "'a alloc_state"
    by (simp add: alloc_step_def range_size_def)
  with assms(2) show ?thesis
    by (simp add: create_ranges_def Let_def jd del: sum_list.Cons)
qed

theorem create_ranges_zero_total_witness:
  "[(''A'', 0::int)] \<noteq> [] \<and> sum_list (vals [(''A'', 0::int)]) = 0 \<and>
   create_ranges [(''A'', 0)] = Inl ZeroDivisionError"
  using create_ranges_zero_total [of "[(''A'', 0)]"] by simp

text \<open>
  C38. The worked example of the specification: frequencies 10, 20 and 70 give the
  ranges 1..10, 11..30 and 31..99. The rounded sizes are 10, 20 and 69.
\<close>

theorem create_ranges_scenario:
  "create_ranges [(''J1'', 10), (''J2'', 20), (''J3'', 70)] =
     Inr ([(''J1'', (1, 10)), (''J2'', (11, 30)), (''J3'', (31, 99))], 99)"
proof -
  have "range_size 10 100 = Inr 10" and "range_size 20 100 = Inr 20"
    and "range_size 70 100 = Inr 69"
    by code_simp+
  then show ?thesis by (simp add: create_ranges_eval cong: res_bind_weak_cong)
qed

text \<open>
  C39. Jobs of equal frequency do not get ranges of nearly equal size: with eight jobs
  of frequency 1 each rounded size is 12, seven jobs get 12 numbers and the last job,
  whose range is stretched to 99, gets 15.
\<close>

theorem equal_frequencies_unequal_ranges:
  "create_ranges [(1::nat, 1), (2, 1), (3, 1), (4, 1), (5, 1), (6, 1), (7, 1), (8, 1)] =
     Inr ([(1, (1, 12)), (2, (13, 24)), (3, (25, 36)), (4, (37, 48)), (5, (49, 60)),
           (6, (61, 72)), (7, (73, 84)), (8, (85, 99))], 99)"
proof -
  have "range_size 1 8 = Inr 12" by code_simp
  then show ?thesis by (simp add: create_ranges_eval cong: res_bind_weak_cong)
qed

text \<open>
  C40. A job with a positive frequency can get an empty range: with frequencies 1000
  and 1 the first job takes the whole scale and the second gets the span from 100 to
  99, which holds no number, so it is never drawn.
\<close>

theorem starved_job:
  "create_ranges [(''A'', 1000), (''B'', 1)] = Inr ([(''A'', (1, 99)), (''B'', (100, 99))], 99)"
proof -
  have "range_size 1000 1001 = Inr 99" and "range_size 1 1001 = Inr 0"
    by code_simp+
  then show ?thesis by (simp add: create_ranges_eval cong: res_bind_weak_cong)
qed

end
