(* ===== verification/Job_Input.thy ===== *)
theory Job_Input
  imports Py_String Range_Allocator
begin

text \<open>
  The input form, \<^verbatim>\<open>get_job_data_ui\<close> of \<^verbatim>\<open>src/app.py\<close> (lines 6 to 13): a number of jobs
  between 1 and 50 and one frequency of at least 1 per job, under the names \<^verbatim>\<open>J1\<close>,
  \<^verbatim>\<open>J2\<close>, ... What the user has entered is the record \<open>job_form\<close>; the widget
  \<^verbatim>\<open>st.number_input\<close> returns the entry moved into the bounds it was created with, which is
  how the library keeps a value within \<^verbatim>\<open>min_value\<close> and \<^verbatim>\<open>max_value\<close>.
\<close>

section \<open>Definitions\<close>

definition number_input :: "int \<Rightarrow> int option \<Rightarrow> int \<Rightarrow> int" where
  "number_input min_value max_value entry =
     (case max_value of
        None \<Rightarrow> max min_value entry
      | Some hi \<Rightarrow> min hi (max min_value entry))"

text \<open>The entries of the form: the number of jobs and the frequency under each key \<^verbatim>\<open>freq_i\<close>.\<close>

record job_form =
  jf_num_jobs :: int
  jf_freq :: "int \<Rightarrow> int"

definition job_name :: "int \<Rightarrow> string" where
  "job_name i = ''J'' @ str_int i"

definition get_job_data_ui :: "job_form \<Rightarrow> string freq_table" where
  "get_job_data_ui form =
     (let num_jobs = number_input 1 (Some 50) (jf_num_jobs form)
      in fold (\<lambda>i job_data.
                 let freq = number_input 1 None (jf_freq form i)
                 in dict_set (job_name i) freq job_data)
           [1..num_jobs] [])"

text \<open>The form as it is first shown: three jobs of frequency 10.\<close>

definition default_form :: job_form where
  "default_form = \<lparr>jf_num_jobs = 3, jf_freq = (\<lambda>i. 10)\<rparr>"

section \<open>The widget\<close>

lemma number_input_lower: "1 \<le> number_input 1 None e"
  by (simp add: number_input_def)

lemma number_input_bounds: "1 \<le> number_input 1 (Some 50) e" "number_input 1 (Some 50) e \<le> 50"
  by (simp_all add: number_input_def)

lemma number_input_id:
  "lo \<le> e \<Longrightarrow> number_input lo None e = e"
  "lo \<le> e \<Longrightarrow> e \<le> hi \<Longrightarrow> number_input lo (Some hi) e = e"
  by (simp_all add: number_input_def)

section \<open>The names\<close>

lemma job_name_inject [simp]: "job_name i = job_name j \<longleftrightarrow> i = j"
  by (simp add: job_name_def)

lemma distinct_job_names: "distinct (map job_name [1..n])"
  by (simp add: distinct_map inj_on_def)

section \<open>The table that the form returns\<close>

lemma get_job_data_ui_eq:
  "get_job_data_ui form =
     map (\<lambda>i. (job_name i, number_input 1 None (jf_freq form i)))
       [1..number_input 1 (Some 50) (jf_num_jobs form)]"
  using fold_dict_set_fresh [where f = job_name and d = "[]", OF distinct_job_names]
  by (simp add: get_job_data_ui_def Let_def)

lemma get_job_data_ui_valid_freqs: "valid_freqs (get_job_data_ui form)"
proof -
  let ?n = "number_input 1 (Some 50) (jf_num_jobs form)"
  from number_input_bounds(1) [of "jf_num_jobs form"] have "[1..?n] \<noteq> []" by simp
  moreover have "is_dict (get_job_data_ui form)"
    using distinct_job_names [of ?n] by (simp add: get_job_data_ui_eq comp_def)
  ultimately show ?thesis
    by (simp add: valid_freqs_def get_job_data_ui_eq list_all_iff number_input_lower)
qed

lemma default_form_table:
  "get_job_data_ui default_form = [(''J1'', 10), (''J2'', 10), (''J3'', 10)]"
proof -
  have "[1..3::int] = [1, 2, 3]" by (simp add: upto_rec1)
  then show ?thesis
    by (simp add: get_job_data_ui_eq default_form_def number_input_def job_name_def
        str_int_evals)
qed

section \<open>Properties of the input form\<close>

text \<open>
  C8. Whatever the user enters, \<^verbatim>\<open>get_job_data_ui\<close> returns a valid frequency table: at
  least one and at most 50 jobs, no name twice, every frequency at least 1. The
  allocator is never called with an empty table or a total of zero.
\<close>

theorem get_job_data_ui_valid:
  "valid_freqs (get_job_data_ui form) \<and> length (get_job_data_ui form) \<le> 50"
proof -
  have "length (get_job_data_ui form) = nat (number_input 1 (Some 50) (jf_num_jobs form))"
    by (simp add: get_job_data_ui_eq)
  with number_input_bounds(2) [of "jf_num_jobs form"] get_job_data_ui_valid_freqs [of form]
  show ?thesis by simp
qed

text \<open>
  C33. The table that \<^verbatim>\<open>get_job_data_ui\<close> returns, entry by entry: for \<open>i\<close> from 1 to the
  number of jobs, in this order, the name \<^verbatim>\<open>J\<close> followed by the decimal text of \<open>i\<close>, with
  the frequency entered for \<open>i\<close> raised to 1 if it is less.
\<close>

theorem get_job_data_ui_entries:
  "get_job_data_ui form =
     map (\<lambda>i. (''J'' @ str_int i, max 1 (jf_freq form i)))
       [1..min 50 (max 1 (jf_num_jobs form))]"
  by (simp add: get_job_data_ui_eq job_name_def number_input_def)

end
