(* ===== verification/Draw_Resolver.thy ===== *)
theory Draw_Resolver
  imports Range_Allocator
begin

text \<open>
  The draw resolver, \<^verbatim>\<open>get_job_from_random\<close> of \<^verbatim>\<open>src/app.py\<close> (lines 36 to 40): the
  first job of the table, in table order, whose span holds the number; \<open>None\<close> when
  no span holds it. The theory characterises the loop as a search on any table, then
  shows what it returns on a table that partitions the scale, which is what the range
  allocator produces.
\<close>

section \<open>Definition\<close>

fun get_job_from_random :: "'k range_table \<Rightarrow> int \<Rightarrow> 'k option" where
  "get_job_from_random [] rand_num = None"
| "get_job_from_random ((job, (start, end1)) # rest) rand_num =
     (if start \<le> rand_num \<and> rand_num \<le> end1 then Some job
      else get_job_from_random rest rand_num)"

section \<open>The result on any table\<close>

lemma resolver_Cons:
  "get_job_from_random (p # rest) n =
     (if in_span n (snd p) then Some (fst p) else get_job_from_random rest n)"
  by (cases p) (auto simp: in_span_def)

text \<open>The loop is a search for the first span that holds the number.\<close>

lemma resolver_find:
  "get_job_from_random rt n = map_option fst (find (\<lambda>p. in_span n (snd p)) rt)"
  by (induction rt) (simp_all add: resolver_Cons)

lemma resolver_None_iff:
  "get_job_from_random rt n = None \<longleftrightarrow> (\<forall>p \<in> set rt. \<not> in_span n (snd p))"
  unfolding resolver_find by (simp only: option.map_disc_iff find_None_iff) blast

lemma resolver_Some_mem:
  assumes "get_job_from_random rt n = Some job"
  shows "\<exists>sp. (job, sp) \<in> set rt \<and> in_span n sp"
proof -
  from assms obtain i where "i < length rt" "fst (rt ! i) = job" "in_span n (snd (rt ! i))"
    unfolding resolver_find map_option_eq_Some find_Some_iff by blast
  then have "(job, snd (rt ! i)) \<in> set rt"
    by (metis nth_mem prod.collapse)
  with \<open>in_span n (snd (rt ! i))\<close> show ?thesis by blast
qed

lemma resolver_Some_key: "get_job_from_random rt n = Some job \<Longrightarrow> job \<in> set (keys rt)"
  by (drule resolver_Some_mem) force

section \<open>The result on a partition of the scale\<close>

lemma resolver_owner:
  assumes "partitions_scale rt" and "(job, sp) \<in> set rt" and "in_span n sp"
  shows "get_job_from_random rt n = Some job"
proof -
  from assms(2,3) have "\<exists>p \<in> set rt. in_span n (snd p)"
    by (intro bexI [of _ "(job, sp)"]) simp_all
  then have "get_job_from_random rt n \<noteq> None"
    by (simp only: resolver_None_iff) blast
  then obtain j' where j': "get_job_from_random rt n = Some j'" by auto
  then obtain sp' where "(j', sp') \<in> set rt" "in_span n sp'"
    by (auto dest: resolver_Some_mem)
  with partition_owner_unique [OF assms(1) this(1) assms(2) this(2) assms(3)] j'
  show ?thesis by simp
qed

lemma resolver_total:
  assumes "partitions_scale rt" and "1 \<le> n" and "n \<le> 99"
  shows "\<exists>job sp. (job, sp) \<in> set rt \<and> in_span n sp \<and> get_job_from_random rt n = Some job"
proof -
  from assms(1) have ch: "chain 1 (vals rt) 100" by (simp add: partitions_scale_def)
  from chain_cover [OF ch, of n] assms(2,3) obtain job sp
    where m: "(job, sp) \<in> set rt" and sp: "in_span n sp" by auto
  with assms(1) have "get_job_from_random rt n = Some job" by (rule resolver_owner)
  with m sp show ?thesis by blast
qed

lemma resolver_outside:
  assumes "partitions_scale rt" and "n < 1 \<or> 99 < n"
  shows "get_job_from_random rt n = None"
proof -
  from assms(1) have ch: "chain 1 (vals rt) 100" by (simp add: partitions_scale_def)
  have "\<not> in_span n (snd p)" if "p \<in> set rt" for p
  proof -
    from that have "(fst (snd p), snd (snd p)) \<in> set (vals rt)" by force
    from chain_bounds [OF ch this] assms(2) show ?thesis by (auto simp: in_span_def)
  qed
  then show ?thesis by (simp add: resolver_None_iff)
qed

lemma partitions_two_jobs: "partitions_scale [(''A'', (1, 50)), (''B'', (51, 99))]"
  by (simp add: partitions_scale_def)

section \<open>Properties of the draw resolver\<close>

text \<open>
  C19. On any table, \<^verbatim>\<open>get_job_from_random\<close> returns a job exactly when that job is the
  key of the first entry, in table order, whose span holds the number (both ends
  included): no entry before it holds the number.
\<close>

theorem resolver_first_match:
  "get_job_from_random rt n = Some job \<longleftrightarrow>
     (\<exists>i < length rt. fst (rt ! i) = job \<and> in_span n (snd (rt ! i)) \<and>
        (\<forall>j < i. \<not> in_span n (snd (rt ! j))))"
  unfolding resolver_find map_option_eq_Some find_Some_iff by blast

theorem resolver_first_match_witness:
  "\<exists>i < length [(''A'', (1::int, 50::int)), (''B'', (40, 99))].
     fst ([(''A'', (1::int, 50::int)), (''B'', (40, 99))] ! i) = ''A'' \<and>
     in_span 45 (snd ([(''A'', (1, 50)), (''B'', (40, 99))] ! i)) \<and>
     (\<forall>j < i. \<not> in_span 45 (snd ([(''A'', (1, 50)), (''B'', (40, 99))] ! j)))"
  using resolver_first_match [of "[(''A'', (1, 50)), (''B'', (40, 99))]" 45 "''A''"]
  by simp

text \<open>
  C28. On a table that partitions the scale, every number from 1 to 99 resolves to a
  job of the table, the one whose span holds the number; the resolver does not return
  \<^verbatim>\<open>None\<close> there.
\<close>

theorem resolver_partition_total:
  assumes "partitions_scale rt" and "1 \<le> n" and "n \<le> 99"
  shows "\<exists>job sp. get_job_from_random rt n = Some job \<and> (job, sp) \<in> set rt \<and> in_span n sp"
  using resolver_total [OF assms] by blast

theorem resolver_partition_total_witness:
  "partitions_scale [(''A'', (1, 50)), (''B'', (51, 99))] \<and>
   (\<exists>job sp. get_job_from_random [(''A'', (1, 50)), (''B'', (51, 99))] 51 = Some job \<and>
      (job, sp) \<in> set [(''A'', (1, 50)), (''B'', (51, 99))] \<and> in_span 51 sp)"
  using resolver_partition_total [OF partitions_two_jobs, of 51] partitions_two_jobs by simp

text \<open>
  C29. On a table that partitions the scale, \<^verbatim>\<open>get_job_from_random\<close> returns \<^verbatim>\<open>None\<close>
  exactly for the numbers outside 1..99.
\<close>

theorem resolver_none_outside:
  assumes "partitions_scale rt"
  shows "get_job_from_random rt n = None \<longleftrightarrow> n < 1 \<or> 99 < n"
proof
  assume none: "get_job_from_random rt n = None"
  show "n < 1 \<or> 99 < n"
  proof (rule ccontr)
    assume "\<not> (n < 1 \<or> 99 < n)"
    then have "1 \<le> n" "n \<le> 99" by simp_all
    from resolver_total [OF assms this] none show False by simp
  qed
next
  assume "n < 1 \<or> 99 < n"
  with assms show "get_job_from_random rt n = None" by (rule resolver_outside)
qed

theorem resolver_none_outside_witness:
  "partitions_scale [(''A'', (1, 50)), (''B'', (51, 99))] \<and>
   get_job_from_random [(''A'', (1, 50)), (''B'', (51, 99))] 100 = None"
  using resolver_none_outside [OF partitions_two_jobs, of 100] partitions_two_jobs by simp

end
