(* ===== verification/Simulation_Runner.thy ===== *)
theory Simulation_Runner
  imports Draw_Resolver
begin

text \<open>
  The simulation runner, \<^verbatim>\<open>run_simulations\<close> of \<^verbatim>\<open>src/app.py\<close> (lines 43 to 68): two
  nested loops that draw a number, resolve it to a job, count the job and record the
  draw, then the normalisation of the counters to probabilities and their running
  sum. The random number generator is a parameter: a function from the two bounds and
  a generator state to a number and the next state. The variables of the function are
  the fields of the record \<open>run_state\<close>; every statement that can raise is a step of
  the result monad.
\<close>

section \<open>The random number generator\<close>

text \<open>
  \<^verbatim>\<open>random.randint(a, b)\<close> raises \<^verbatim>\<open>ValueError\<close> on an empty interval and returns a number
  of the interval otherwise. \<open>rng_ok\<close> is that contract. Two generators that meet it are
  used in examples: \<open>replay\<close> returns the numbers of a list, each moved into the interval
  if it lies outside, and the lower bound when the list is used up; \<open>lcg\<close> is a linear
  congruential generator.
\<close>

type_synonym 'g randint = "int \<Rightarrow> int \<Rightarrow> 'g \<Rightarrow> int \<times> 'g"

definition py_randint :: "'g randint \<Rightarrow> int \<Rightarrow> int \<Rightarrow> 'g \<Rightarrow> (int \<times> 'g) result" where
  "py_randint gen a b g = (if b < a then Inl ValueError else Inr (gen a b g))"

definition rng_ok :: "'g randint \<Rightarrow> bool" where
  "rng_ok gen \<longleftrightarrow> (\<forall>a b g. a \<le> b \<longrightarrow> a \<le> fst (gen a b g) \<and> fst (gen a b g) \<le> b)"

definition replay :: "(int list) randint" where
  "replay a b g = (case g of [] \<Rightarrow> (a, []) | x # xs \<Rightarrow> (max a (min b x), xs))"

definition lcg :: "int randint" where
  "lcg a b g = (a + g mod (b - a + 1), (1103515245 * g + 12345) mod 2147483648)"

section \<open>The state and the operations\<close>

type_synonym 'k draw_record = "int \<times> 'k \<times> pyfloat"

record ('k, 'g) run_state =
  rs_simulations :: "'k list list"
  rs_job_counts :: "('k, int) dict"
  rs_simulation_details :: "'k draw_record list list"
  rs_sequence :: "'k list"
  rs_sim_details :: "'k draw_record list"
  rs_gen :: 'g

definition running_cumulative :: "('k, int) dict \<Rightarrow> int \<Rightarrow> pyfloat result" where
  "running_cumulative job_counts total_draws =
     res_fold (\<lambda>acc j. res_bind (dict_get job_counts j) (\<lambda>c.
                 res_bind (int_truediv c total_draws) (\<lambda>p. Inr (float_add acc p))))
       (Fin 0) (keys job_counts)"

definition count_job :: "('k, int) dict \<Rightarrow> 'k option \<Rightarrow> ('k \<times> ('k, int) dict) result" where
  "count_job job_counts job =
     (case job of
        None \<Rightarrow> Inl KeyError
      | Some j \<Rightarrow> res_bind (dict_get job_counts j) (\<lambda>c. Inr (j, dict_set j (c + 1) job_counts)))"

definition draw_step ::
  "'g randint \<Rightarrow> 'k range_table \<Rightarrow> int \<Rightarrow> int \<Rightarrow> int \<Rightarrow> ('k, 'g) run_state \<Rightarrow> int
     \<Rightarrow> ('k, 'g) run_state result" where
  "draw_step gen ranges total_range num_simulations jobs_per_simulation s i =
     res_bind (py_randint gen 1 total_range (rs_gen s)) (\<lambda>(rand_num, g).
     res_bind (count_job (rs_job_counts s) (get_job_from_random ranges rand_num)) (\<lambda>(job, job_counts).
     res_bind (running_cumulative job_counts (num_simulations * jobs_per_simulation)) (\<lambda>cumulative_prob.
       Inr (s\<lparr>rs_job_counts := job_counts,
               rs_sim_details := rs_sim_details s @ [(rand_num, job, cumulative_prob)],
               rs_sequence := rs_sequence s @ [job],
               rs_gen := g\<rparr>))))"

text \<open>The two assignments that open a simulation and the two appends that close it.\<close>

definition start_run :: "('k, 'g) run_state \<Rightarrow> ('k, 'g) run_state" where
  "start_run s = s\<lparr>rs_sequence := [], rs_sim_details := []\<rparr>"

definition finish_run :: "('k, 'g) run_state \<Rightarrow> ('k, 'g) run_state" where
  "finish_run s = s\<lparr>rs_simulations := rs_simulations s @ [rs_sequence s],
                    rs_simulation_details := rs_simulation_details s @ [rs_sim_details s]\<rparr>"

definition sim_step ::
  "'g randint \<Rightarrow> 'k range_table \<Rightarrow> int \<Rightarrow> int \<Rightarrow> int \<Rightarrow> ('k, 'g) run_state \<Rightarrow> int
     \<Rightarrow> ('k, 'g) run_state result" where
  "sim_step gen ranges total_range num_simulations jobs_per_simulation s sim =
     res_bind
       (res_fold (draw_step gen ranges total_range num_simulations jobs_per_simulation)
          (start_run s) (py_range jobs_per_simulation))
       (\<lambda>s'. Inr (finish_run s'))"

definition init_counts :: "'k range_table \<Rightarrow> ('k, int) dict" where
  "init_counts ranges = fold (\<lambda>job d. dict_set job 0 d) (keys ranges) []"

text \<open>The state before the loops; the sequence and the details of a run are not yet bound.\<close>

definition init_state :: "'k range_table \<Rightarrow> 'g \<Rightarrow> ('k, 'g) run_state" where
  "init_state ranges g =
     \<lparr>rs_simulations = [], rs_job_counts = init_counts ranges, rs_simulation_details = [],
      rs_sequence = [], rs_sim_details = [], rs_gen = g\<rparr>"

definition run_loops ::
  "'g randint \<Rightarrow> 'k range_table \<Rightarrow> int \<Rightarrow> int \<Rightarrow> int \<Rightarrow> 'g \<Rightarrow> ('k, 'g) run_state result" where
  "run_loops gen ranges total_range num_simulations jobs_per_simulation g =
     res_fold (sim_step gen ranges total_range num_simulations jobs_per_simulation)
       (init_state ranges g) (py_range num_simulations)"

definition probabilities_of :: "('k, int) dict \<Rightarrow> int \<Rightarrow> ('k, pyfloat) dict result" where
  "probabilities_of job_counts total_draws =
     res_fold (\<lambda>d (job, count). res_bind (int_truediv count total_draws) (\<lambda>p. Inr (dict_set job p d)))
       [] job_counts"

definition cumulative_of :: "('k, pyfloat) dict \<Rightarrow> ('k, pyfloat) dict" where
  "cumulative_of probabilities =
     fst (fold (\<lambda>(job, prob) (d, cumulative_sum).
                  let cumulative_sum' = float_add cumulative_sum prob
                  in (dict_set job cumulative_sum' d, cumulative_sum'))
            probabilities ([], Fin 0))"

definition run_simulations ::
  "'g randint \<Rightarrow> 'k range_table \<Rightarrow> int \<Rightarrow> int \<Rightarrow> int \<Rightarrow> 'g
     \<Rightarrow> (('k list list \<times> ('k, pyfloat) dict \<times> ('k, pyfloat) dict \<times> 'k draw_record list list) \<times> 'g) result" where
  "run_simulations gen ranges total_range num_simulations jobs_per_simulation g =
     res_bind (run_loops gen ranges total_range num_simulations jobs_per_simulation g) (\<lambda>s.
     res_bind (probabilities_of (rs_job_counts s) (num_simulations * jobs_per_simulation)) (\<lambda>probabilities.
       Inr ((rs_simulations s, probabilities, cumulative_of probabilities, rs_simulation_details s),
            rs_gen s)))"

section \<open>Invariants of the loops\<close>

text \<open>The invariant of the counters: a dictionary over the jobs, no count negative.\<close>

definition counts_ok :: "('k, 'g) run_state \<Rightarrow> bool" where
  "counts_ok s \<longleftrightarrow> is_dict (rs_job_counts s) \<and> (\<forall>c \<in> set (vals (rs_job_counts s)). 0 \<le> c)"

text \<open>The inner loop: \<open>n\<close> draws add \<open>n\<close> to the counters and \<open>n\<close> entries to the run.\<close>

definition draws_inv :: "('k, 'g) run_state \<Rightarrow> nat \<Rightarrow> ('k, 'g) run_state \<Rightarrow> bool" where
  "draws_inv s0 i s \<longleftrightarrow>
     counts_ok s \<and> keys (rs_job_counts s) = keys (rs_job_counts s0) \<and>
     sum_list (vals (rs_job_counts s)) = sum_list (vals (rs_job_counts s0)) + int i \<and>
     length (rs_sequence s) = length (rs_sequence s0) + i \<and>
     length (rs_sim_details s) = length (rs_sim_details s0) + i \<and>
     rs_simulations s = rs_simulations s0 \<and>
     rs_simulation_details s = rs_simulation_details s0"

text \<open>
  The outer loop: after \<open>i\<close> simulations there are \<open>i\<close> runs of \<open>jobs_per_simulation\<close>
  draws each, and the counters sum to the number of draws.
\<close>

definition sims_inv :: "('k, 'g) run_state \<Rightarrow> nat \<Rightarrow> nat \<Rightarrow> ('k, 'g) run_state \<Rightarrow> bool" where
  "sims_inv s0 m i s \<longleftrightarrow>
     counts_ok s \<and> keys (rs_job_counts s) = keys (rs_job_counts s0) \<and>
     sum_list (vals (rs_job_counts s)) = sum_list (vals (rs_job_counts s0)) + int (i * m) \<and>
     length (rs_simulations s) = length (rs_simulations s0) + i \<and>
     length (rs_simulation_details s) = length (rs_simulation_details s0) + i \<and>
     (\<forall>q \<in> set (rs_simulations s). q \<in> set (rs_simulations s0) \<or> length q = m) \<and>
     (\<forall>q \<in> set (rs_simulation_details s). q \<in> set (rs_simulation_details s0) \<or> length q = m)"

section \<open>The generators\<close>

lemma rng_ok_replay: "rng_ok replay"
  by (auto simp: rng_ok_def replay_def split: list.splits)

lemma rng_ok_lcg: "rng_ok lcg"
  by (simp add: rng_ok_def lcg_def) (smt (verit) pos_mod_bound pos_mod_sign)

section \<open>The state\<close>

lemma start_run_simps [simp]:
  "rs_simulations (start_run s) = rs_simulations s"
  "rs_job_counts (start_run s) = rs_job_counts s"
  "rs_simulation_details (start_run s) = rs_simulation_details s"
  "rs_sequence (start_run s) = []"
  "rs_sim_details (start_run s) = []"
  "rs_gen (start_run s) = rs_gen s"
  by (simp_all add: start_run_def)

lemma finish_run_simps [simp]:
  "rs_simulations (finish_run s) = rs_simulations s @ [rs_sequence s]"
  "rs_job_counts (finish_run s) = rs_job_counts s"
  "rs_simulation_details (finish_run s) = rs_simulation_details s @ [rs_sim_details s]"
  "rs_sequence (finish_run s) = rs_sequence s"
  "rs_sim_details (finish_run s) = rs_sim_details s"
  "rs_gen (finish_run s) = rs_gen s"
  by (simp_all add: finish_run_def)

lemma init_state_simps [simp]:
  "rs_simulations (init_state ranges g) = []"
  "rs_job_counts (init_state ranges g) = init_counts ranges"
  "rs_simulation_details (init_state ranges g) = []"
  "rs_sequence (init_state ranges g) = []"
  "rs_sim_details (init_state ranges g) = []"
  "rs_gen (init_state ranges g) = g"
  by (simp_all add: init_state_def)

lemma sim_step_Inr:
  assumes "sim_step gen ranges tr ns jp s x = Inr s'"
  obtains t where "res_fold (draw_step gen ranges tr ns jp) (start_run s) (py_range jp) = Inr t"
    and "s' = finish_run t"
  using assms by (auto simp: sim_step_def res_bind_eq_Inr)

section \<open>The counters\<close>

lemma init_fold_dict:
  "is_dict d \<Longrightarrow> is_dict (fold (\<lambda>job d. dict_set job (0::int) d) ks d)"
  by (induction ks arbitrary: d) (simp_all add: is_dict_set)

lemma init_fold_zero:
  fixes d :: "('k, int) dict"
  assumes "\<forall>v \<in> set (vals d). v = 0"
  shows "\<forall>v \<in> set (vals (fold (\<lambda>job d. dict_set job 0 d) ks d)). v = 0"
  using assms
proof (induction ks arbitrary: d)
  case Nil
  then show ?case by simp
next
  case (Cons k ks)
  from Cons.prems set_vals_dict_set [of k 0 d]
  have "\<forall>v \<in> set (vals (dict_set k 0 d)). v = 0" by blast
  then have "\<forall>v \<in> set (vals (fold (\<lambda>job d. dict_set job 0 d) ks (dict_set k 0 d))). v = 0"
    by (rule Cons.IH)
  then show ?case by simp
qed

lemma init_fold_keys:
  "set (keys (fold (\<lambda>job d. dict_set job (0::int) d) ks d)) = set (keys d) \<union> set ks"
proof (induction ks arbitrary: d)
  case Nil
  show ?case by simp
next
  case (Cons k ks)
  have "set (keys (fold (\<lambda>job d. dict_set job 0 d) ks (dict_set k 0 d)))
      = set (keys (dict_set k 0 d)) \<union> set ks"
    by (rule Cons.IH)
  also have "\<dots> = insert k (set (keys d)) \<union> set ks"
    by (simp only: set_keys_dict_set)
  finally show ?case by simp
qed

lemma init_counts_props:
  "is_dict (init_counts ranges)"
  "\<forall>v \<in> set (vals (init_counts ranges)). v = 0"
  "set (keys (init_counts ranges)) = set (keys ranges)"
  unfolding init_counts_def
  using init_fold_dict [of "[]" "keys ranges"] init_fold_zero [of "[]" "keys ranges"]
    init_fold_keys [of "keys ranges" "[]"]
  by simp_all

lemma init_counts_sum [simp]: "sum_list (vals (init_counts ranges)) = 0"
  using init_counts_props(2) [of ranges] by (rule sum_list_all_zero)

lemma count_job_Inr:
  "count_job d job = Inr (j, d') \<longleftrightarrow>
     job = Some j \<and> (\<exists>c. map_of d j = Some c \<and> d' = dict_set j (c + 1) d)"
  by (cases job) (auto simp: count_job_def res_bind_eq_Inr dict_get_Inr)

lemma count_job_Inl:
  "count_job d job = Inl e \<longleftrightarrow>
     e = KeyError \<and> (job = None \<or> (\<exists>j. job = Some j \<and> j \<notin> set (keys d)))"
  by (cases job) (auto simp: count_job_def res_bind_eq_Inl dict_get_Inl)

lemma cumulative_step_ok:
  assumes "map_of d j = Some c" and "0 \<le> c" and "c \<le> T" and "0 < T"
  shows "res_bind (dict_get d j) (\<lambda>c. res_bind (int_truediv c T) (\<lambda>p. Inr (float_add acc p)))
    = Inr (float_add acc (Fin (fl64 (of_int c / of_int T))))"
  using int_truediv_share(1) [OF assms(2-4)] assms(1) by (simp add: dict_get_def)

lemma running_cumulative_ok:
  assumes "\<forall>c \<in> set (vals d). 0 \<le> c \<and> c \<le> T" and "0 < T"
  shows "\<exists>p. running_cumulative d T = Inr p"
proof -
  let ?f = "\<lambda>acc j. res_bind (dict_get d j) (\<lambda>c.
           res_bind (int_truediv c T) (\<lambda>p. Inr (float_add acc p)))"
  have "\<exists>t. res_fold ?f (Fin 0) (keys d) = Inr t \<and> True"
  proof (rule res_fold_ok [where P = "\<lambda>_. True"])
    fix acc j
    assume "j \<in> set (keys d)"
    then have "\<exists>c. map_of d j = Some c" by (rule in_keys_map_of)
    then obtain c where c: "map_of d j = Some c" by blast
    then have "c \<in> set (vals d)" by (rule map_of_in_vals)
    with assms(1) have "0 \<le> c" "c \<le> T" by blast+
    with c have "?f acc j = Inr (float_add acc (Fin (fl64 (of_int c / of_int T))))"
      using assms(2) by (rule cumulative_step_ok)
    then show "\<exists>s'. ?f acc j = Inr s' \<and> True" by simp
  qed simp
  then show ?thesis by (simp add: running_cumulative_def)
qed

text \<open>What one successful draw does to the state.\<close>

lemma draw_step_Inr:
  assumes "draw_step gen ranges tr ns jp s i = Inr s'"
  obtains rand_num job c cum where
    "py_randint gen 1 tr (rs_gen s) = Inr (rand_num, rs_gen s')"
    "get_job_from_random ranges rand_num = Some job"
    "map_of (rs_job_counts s) job = Some c"
    "running_cumulative (dict_set job (c + 1) (rs_job_counts s)) (ns * jp) = Inr cum"
    "s' = s\<lparr>rs_job_counts := dict_set job (c + 1) (rs_job_counts s),
            rs_sim_details := rs_sim_details s @ [(rand_num, job, cum)],
            rs_sequence := rs_sequence s @ [job],
            rs_gen := rs_gen s'\<rparr>"
  using assms
  by (auto simp: draw_step_def res_bind_eq_Inr count_job_Inr split: prod.splits)

lemma draw_step_effect:
  assumes "draw_step gen ranges tr ns jp s i = Inr s'" and "counts_ok s"
  shows "counts_ok s'"
    and "keys (rs_job_counts s') = keys (rs_job_counts s)"
    and "sum_list (vals (rs_job_counts s')) = sum_list (vals (rs_job_counts s)) + 1"
    and "length (rs_sequence s') = Suc (length (rs_sequence s))"
    and "length (rs_sim_details s') = Suc (length (rs_sim_details s))"
    and "rs_simulations s' = rs_simulations s"
    and "rs_simulation_details s' = rs_simulation_details s"
proof -
  from assms(1) obtain rand_num job c cum where
    c: "map_of (rs_job_counts s) job = Some c" and
    s': "s' = s\<lparr>rs_job_counts := dict_set job (c + 1) (rs_job_counts s),
            rs_sim_details := rs_sim_details s @ [(rand_num, job, cum)],
            rs_sequence := rs_sequence s @ [job],
            rs_gen := rs_gen s'\<rparr>"
    by (rule draw_step_Inr)
  have cs: "rs_job_counts s' = dict_set job (c + 1) (rs_job_counts s)"
    by (subst s') simp
  from c have "c \<in> set (vals (rs_job_counts s))" by (rule map_of_in_vals)
  with assms(2) have "0 \<le> c" unfolding counts_ok_def by blast
  then have "0 \<le> c + 1" by simp
  moreover from assms(2) have "\<forall>x \<in> set (vals (rs_job_counts s)). 0 \<le> x"
    unfolding counts_ok_def by blast
  ultimately have "\<forall>x \<in> set (vals (dict_set job (c + 1) (rs_job_counts s))). 0 \<le> x"
    by (rule vals_dict_set_ball)
  moreover from assms(2) have "is_dict (dict_set job (c + 1) (rs_job_counts s))"
    unfolding counts_ok_def by (blast intro: is_dict_set)
  ultimately show "counts_ok s'"
    unfolding counts_ok_def cs by blast
  from c have "job \<in> set (keys (rs_job_counts s))" by (rule map_of_in_keys)
  then show "keys (rs_job_counts s') = keys (rs_job_counts s)"
    by (simp only: cs keys_dict_set_present)
  from c show "sum_list (vals (rs_job_counts s')) = sum_list (vals (rs_job_counts s)) + 1"
    by (simp add: cs sum_list_vals_dict_set)
  show "length (rs_sequence s') = Suc (length (rs_sequence s))"
    and "length (rs_sim_details s') = Suc (length (rs_sim_details s))"
    and "rs_simulations s' = rs_simulations s"
    and "rs_simulation_details s' = rs_simulation_details s"
    by (subst s', simp)+
qed

section \<open>The loops: what a run that returns has done\<close>

lemma draws_inv_init: "counts_ok s0 \<Longrightarrow> draws_inv s0 0 s0"
  by (simp add: draws_inv_def)

lemma draws_inv_step:
  assumes "draws_inv s0 i s" and "draw_step gen ranges tr ns jp s x = Inr s'"
  shows "draws_inv s0 (Suc i) s'"
proof -
  from assms(1) have ok: "counts_ok s" by (simp add: draws_inv_def)
  note e = draw_step_effect [OF assms(2) ok]
  from assms(1) show ?thesis
    unfolding draws_inv_def e(2-7) using e(1) by simp
qed

lemma draws_loop_effect:
  assumes "res_fold (draw_step gen ranges tr ns jp) s0 xs = Inr t" and "counts_ok s0"
  shows "draws_inv s0 (length xs) t"
  using assms(1) draws_inv_init [OF assms(2)]
  by (rule res_fold_indexed) (rule draws_inv_step)

lemma sims_inv_init: "counts_ok s0 \<Longrightarrow> sims_inv s0 m 0 s0"
  by (simp add: sims_inv_def)

lemma sims_inv_step:
  assumes "sims_inv s0 (nat jp) i s" and "sim_step gen ranges tr ns jp s x = Inr s'"
  shows "sims_inv s0 (nat jp) (Suc i) s'"
proof -
  from assms(2) obtain t where
    loop: "res_fold (draw_step gen ranges tr ns jp) (start_run s) (py_range jp) = Inr t" and
    s': "s' = finish_run t"
    by (rule sim_step_Inr)
  from assms(1) have "counts_ok s" unfolding sims_inv_def by blast
  then have "counts_ok (start_run s)" by (simp add: counts_ok_def)
  from draws_loop_effect [OF loop this] have d: "draws_inv (start_run s) (nat jp) t" by simp
  from assms(1) d show ?thesis
    unfolding sims_inv_def draws_inv_def s' counts_ok_def
    by (auto simp: algebra_simps)
qed

lemma sims_loop_effect:
  assumes "res_fold (sim_step gen ranges tr ns jp) s0 xs = Inr t" and "counts_ok s0"
  shows "sims_inv s0 (nat jp) (length xs) t"
  using assms(1) sims_inv_init [OF assms(2)]
  by (rule res_fold_indexed) (rule sims_inv_step)

lemma counts_ok_init: "counts_ok (init_state ranges g)"
  using init_counts_props(1,2) [of ranges] by (simp add: counts_ok_def)

lemma run_loops_effect:
  assumes "run_loops gen ranges tr ns jp g = Inr s"
  shows "counts_ok s"
    and "set (keys (rs_job_counts s)) = set (keys ranges)"
    and "sum_list (vals (rs_job_counts s)) = int (nat ns * nat jp)"
    and "length (rs_simulations s) = nat ns"
    and "length (rs_simulation_details s) = nat ns"
    and "\<forall>q \<in> set (rs_simulations s). length q = nat jp"
    and "\<forall>q \<in> set (rs_simulation_details s). length q = nat jp"
proof -
  from assms have "res_fold (sim_step gen ranges tr ns jp) (init_state ranges g) (py_range ns) = Inr s"
    by (simp add: run_loops_def)
  from sims_loop_effect [OF this counts_ok_init]
  have inv: "sims_inv (init_state ranges g) (nat jp) (nat ns) s" by simp
  then show "counts_ok s"
    and "sum_list (vals (rs_job_counts s)) = int (nat ns * nat jp)"
    and "length (rs_simulations s) = nat ns"
    and "length (rs_simulation_details s) = nat ns"
    and "\<forall>q \<in> set (rs_simulations s). length q = nat jp"
    and "\<forall>q \<in> set (rs_simulation_details s). length q = nat jp"
    by (simp_all add: sims_inv_def)
  from inv have "keys (rs_job_counts s) = keys (init_counts ranges)"
    by (simp add: sims_inv_def)
  then show "set (keys (rs_job_counts s)) = set (keys ranges)"
    by (simp only: init_counts_props(3))
qed

text \<open>A result of \<^verbatim>\<open>run_simulations\<close> comes from a final state of the loops.\<close>

lemma run_simulations_Inr:
  assumes "run_simulations gen ranges tr ns jp g = Inr ((sims, probs, cum, details), g')"
  obtains s where "run_loops gen ranges tr ns jp g = Inr s"
    and "probabilities_of (rs_job_counts s) (ns * jp) = Inr probs"
    and "sims = rs_simulations s" and "cum = cumulative_of probs"
    and "details = rs_simulation_details s" and "g' = rs_gen s"
  using assms by (auto simp: run_simulations_def res_bind_eq_Inr)

section \<open>Evaluation\<close>

text \<open>
  The equations that evaluate a run on a concrete input by simplification. A run of
  one simulation of two draws on the table of two equal jobs, with the numbers 5 and 60
  replayed: the state after the loops and the result.
\<close>

lemmas run_eval = run_simulations_def run_loops_def init_state_def init_counts_def sim_step_def
  start_run_def finish_run_def draw_step_def py_randint_def count_job_def
  running_cumulative_def probabilities_of_def cumulative_of_def replay_def py_range_rec
  dict_get_def Let_def

lemma run_loops_two_draws:
  "run_loops replay [(''A'', (1, 50)), (''B'', (51, 99))] 99 1 2 [5, 60] =
     Inr \<lparr>rs_simulations = [[''A'', ''B'']],
          rs_job_counts = [(''A'', 1), (''B'', 1)],
          rs_simulation_details = [[(5, ''A'', Fin (1 / 2)), (60, ''B'', Fin 1)]],
          rs_sequence = [''A'', ''B''],
          rs_sim_details = [(5, ''A'', Fin (1 / 2)), (60, ''B'', Fin 1)],
          rs_gen = []\<rparr>"
  by (simp add: run_eval float_half_facts cong: res_bind_weak_cong)

lemma run_simulations_two_draws:
  "run_simulations replay [(''A'', (1, 50)), (''B'', (51, 99))] 99 1 2 [5, 60] =
     Inr (([[''A'', ''B'']],
           [(''A'', Fin (1 / 2)), (''B'', Fin (1 / 2))],
           [(''A'', Fin (1 / 2)), (''B'', Fin 1)],
           [[(5, ''A'', Fin (1 / 2)), (60, ''B'', Fin 1)]]), [])"
  by (simp add: run_eval float_half_facts cong: res_bind_weak_cong)

section \<open>Properties of the simulation runner\<close>

text \<open>
  C6. Count conservation: when the loops of \<^verbatim>\<open>run_simulations\<close> end, the counters are a
  dictionary over the jobs of the range table, no counter is negative, and they sum to
  the number of draws made, \<^verbatim>\<open>num_simulations * jobs_per_simulation\<close> (no draws when
  one of the two is not positive).
\<close>

theorem count_conservation:
  assumes "run_loops gen ranges tr ns jp g = Inr s"
  shows "sum_list (vals (rs_job_counts s)) = int (nat ns * nat jp) \<and>
     set (keys (rs_job_counts s)) = set (keys ranges) \<and> is_dict (rs_job_counts s) \<and>
     list_all (\<lambda>c. 0 \<le> c) (vals (rs_job_counts s))"
  using run_loops_effect(1-3) [OF assms] by (simp add: counts_ok_def list_all_iff)

theorem count_conservation_witness:
  "\<exists>s. run_loops replay [(''A'', (1, 50)), (''B'', (51, 99))] 99 1 2 [5, 60] = Inr s \<and>
     sum_list (vals (rs_job_counts s)) = 2"
  using count_conservation [OF run_loops_two_draws] run_loops_two_draws by simp

text \<open>
  C32. The shape of the result: when \<^verbatim>\<open>run_simulations\<close> returns, there are
  \<^verbatim>\<open>num_simulations\<close> sequences and as many lists of details, each of
  \<^verbatim>\<open>jobs_per_simulation\<close> entries, and the two dictionaries of probabilities have one
  entry per counter.
\<close>

theorem run_simulations_shape:
  assumes "run_simulations gen ranges tr ns jp g = Inr ((sims, probs, cum, details), g')"
  shows "length sims = nat ns \<and> length details = nat ns \<and>
     list_all (\<lambda>q. length q = nat jp) sims \<and> list_all (\<lambda>q. length q = nat jp) details"
proof -
  from assms obtain s where s: "run_loops gen ranges tr ns jp g = Inr s"
    and "sims = rs_simulations s" and "details = rs_simulation_details s"
    by (rule run_simulations_Inr)
  with run_loops_effect(4-7) [OF s] show ?thesis by (simp add: list_all_iff)
qed

theorem run_simulations_shape_witness:
  "run_simulations replay [(''A'', (1, 50)), (''B'', (51, 99))] 99 1 2 [5, 60] =
     Inr (([[''A'', ''B'']],
           [(''A'', Fin (1 / 2)), (''B'', Fin (1 / 2))],
           [(''A'', Fin (1 / 2)), (''B'', Fin 1)],
           [[(5, ''A'', Fin (1 / 2)), (60, ''B'', Fin 1)]]), []) \<and>
   length [[''A'', ''B'']] = nat 1 \<and> list_all (\<lambda>q. length q = nat 2) [[''A'', ''B'']]"
  using run_simulations_shape [OF run_simulations_two_draws] run_simulations_two_draws by simp

end
