(* ===== verification/Result_Display.thy ===== *)
theory Result_Display
  imports Py_String Simulation_Runner
begin

text \<open>
  The display of the results, \<^verbatim>\<open>display_results\<close> of \<^verbatim>\<open>src/app.py\<close> (lines 71 to 89), as the
  data it puts on the page: the rows of the table of probabilities, one panel per
  simulation with the rows of its draws, each with the text of the range of its job,
  and the rows of the summary. The rendering itself (pandas and Streamlit) is not
  modelled. What can go wrong is the lookup \<^verbatim>\<open>ranges[j]\<close> of line 83, which raises
  \<^verbatim>\<open>KeyError\<close> for a job that the range table does not have.
\<close>

section \<open>Definitions\<close>

text \<open>The dash of the range texts, U+2013, as the three bytes of its UTF-8 encoding.\<close>

definition en_dash :: string where
  "en_dash = [char_of (226 :: nat), char_of (128 :: nat), char_of (147 :: nat)]"

type_synonym detail_row = "int \<times> string \<times> pyfloat \<times> string"

record results_view =
  rv_prob_rows :: "(string \<times> pyfloat \<times> pyfloat option) list"
  rv_panels :: "(string \<times> detail_row list) list"
  rv_summary :: "(string \<times> string list) list"

text \<open>\<^verbatim>\<open>f"{ranges[j][0]}-{ranges[j][1]}"\<close>, the function applied to the column of jobs.\<close>

definition range_text :: "string range_table \<Rightarrow> string \<Rightarrow> string result" where
  "range_text ranges j =
     res_bind (dict_get ranges j) (\<lambda>sp. Inr (str_int (fst sp) @ en_dash @ str_int (snd sp)))"

definition detail_row_of :: "string range_table \<Rightarrow> string draw_record \<Rightarrow> detail_row result" where
  "detail_row_of ranges r =
     (case r of (rand_num, job, cumulative_prob) \<Rightarrow>
        res_bind (range_text ranges job) (\<lambda>t. Inr (rand_num, job, cumulative_prob, t)))"

text \<open>One iteration of the loop over \<^verbatim>\<open>enumerate(simulation_details)\<close>.\<close>

definition detail_panel ::
  "string range_table \<Rightarrow> nat \<times> string draw_record list \<Rightarrow> (string \<times> detail_row list) result" where
  "detail_panel ranges p =
     (case p of (i, details) \<Rightarrow>
        res_bind (res_map (detail_row_of ranges) details) (\<lambda>rows.
          Inr (''Simulation '' @ str_int (int i + 1) @ '' Details'', rows)))"

definition display_results ::
  "string list list \<Rightarrow> (string, pyfloat) dict \<Rightarrow> (string, pyfloat) dict \<Rightarrow>
   string draw_record list list \<Rightarrow> string range_table \<Rightarrow> results_view result" where
  "display_results simulations probabilities cumulative_prob simulation_details ranges =
     (let prob_rows = map (\<lambda>(job, p). (job, p, map_of cumulative_prob job)) probabilities
      in res_bind (res_map (detail_panel ranges) (enumerate 0 simulation_details)) (\<lambda>panels.
           Inr \<lparr>rv_prob_rows = prob_rows,
                rv_panels = panels,
                rv_summary = map (\<lambda>(i, sequence). (''Sim '' @ str_int (int i + 1), sequence))
                               (enumerate 0 simulations)\<rparr>))"

text \<open>Every job of the details has a range.\<close>

definition jobs_have_ranges :: "string range_table \<Rightarrow> string draw_record list list \<Rightarrow> bool" where
  "jobs_have_ranges ranges simulation_details \<longleftrightarrow>
     list_all (list_all (\<lambda>r. fst (snd r) \<in> set (keys ranges))) simulation_details"

section \<open>The lookup of the range\<close>

lemma range_text_Inr:
  "range_text ranges j = Inr t \<longleftrightarrow>
     (\<exists>sp. map_of ranges j = Some sp \<and> t = str_int (fst sp) @ en_dash @ str_int (snd sp))"
  by (auto simp: range_text_def res_bind_eq_Inr dict_simps)

lemma range_text_Inl: "range_text ranges j = Inl e \<longleftrightarrow> e = KeyError \<and> j \<notin> set (keys ranges)"
  by (auto simp: range_text_def res_bind_eq_Inl dict_simps)

lemma detail_row_of_Inl:
  "detail_row_of ranges r = Inl e \<longleftrightarrow> e = KeyError \<and> fst (snd r) \<notin> set (keys ranges)"
  by (cases r) (auto simp: detail_row_of_def res_bind_eq_Inl range_text_Inl)

lemma detail_row_of_ok:
  "is_ok (detail_row_of ranges r) \<longleftrightarrow> fst (snd r) \<in> set (keys ranges)"
  using detail_row_of_Inl [of ranges r] by (cases "detail_row_of ranges r") auto

lemma detail_panel_Inl:
  "detail_panel ranges (i, details) = Inl e \<longleftrightarrow> res_map (detail_row_of ranges) details = Inl e"
  by (simp add: detail_panel_def res_bind_eq_Inl)

lemma detail_panel_ok:
  "is_ok (detail_panel ranges (i, details)) \<longleftrightarrow> is_ok (res_map (detail_row_of ranges) details)"
  by (cases "res_map (detail_row_of ranges) details") (simp_all add: detail_panel_def)

section \<open>The outcome of the display\<close>

lemma display_results_Inl:
  assumes "display_results sims probs cum details ranges = Inl e"
  shows "e = KeyError \<and> \<not> jobs_have_ranges ranges details"
proof -
  from assms have "res_map (detail_panel ranges) (enumerate 0 details) = Inl e"
    by (simp add: display_results_def res_bind_eq_Inl)
  then obtain p where p: "p \<in> set (enumerate 0 details)" and dp: "detail_panel ranges p = Inl e"
    by (auto dest: res_map_Inl)
  from dp have "res_map (detail_row_of ranges) (snd p) = Inl e"
    by (cases p) (simp add: detail_panel_Inl)
  then obtain r where "r \<in> set (snd p)" and "detail_row_of ranges r = Inl e"
    by (auto dest: res_map_Inl)
  moreover from p have "fst p < length details" "details ! fst p = snd p"
    by (simp_all add: in_set_enumerate_eq)
  then have "snd p \<in> set details" by (metis nth_mem)
  ultimately show ?thesis
    by (auto simp: detail_row_of_Inl jobs_have_ranges_def list_all_iff)
qed

lemma panels_ok_iff:
  "is_ok (res_map (detail_panel ranges) (enumerate n details)) \<longleftrightarrow> jobs_have_ranges ranges details"
proof -
  have "is_ok (res_map (detail_panel ranges) (enumerate n details)) \<longleftrightarrow>
      (\<forall>p \<in> set (enumerate n details). is_ok (res_map (detail_row_of ranges) (snd p)))"
    by (auto simp: res_map_ok_iff detail_panel_ok)
  also have "\<dots> \<longleftrightarrow> (\<forall>d \<in> snd ` set (enumerate n details). is_ok (res_map (detail_row_of ranges) d))"
    by blast
  also have "snd ` set (enumerate n details) = set details"
    using map_snd_enumerate [of n details] by (metis set_map)
  finally show ?thesis
    by (simp add: res_map_ok_iff detail_row_of_ok jobs_have_ranges_def list_all_iff)
qed

lemma display_results_ok_iff:
  "is_ok (display_results sims probs cum details ranges) \<longleftrightarrow> jobs_have_ranges ranges details"
proof -
  have "is_ok (display_results sims probs cum details ranges) \<longleftrightarrow>
      is_ok (res_map (detail_panel ranges) (enumerate 0 details))"
    by (cases "res_map (detail_panel ranges) (enumerate 0 details)")
      (simp_all add: display_results_def)
  then show ?thesis by (simp only: panels_ok_iff)
qed

text \<open>The view that a display without exception returns.\<close>

lemma display_results_Inr:
  assumes "display_results sims probs cum details ranges = Inr v"
  shows "rv_prob_rows v = map (\<lambda>(job, p). (job, p, map_of cum job)) probs"
    and "rv_summary v = map (\<lambda>(i, sequence). (''Sim '' @ str_int (int i + 1), sequence))
      (enumerate 0 sims)"
    and "res_map (detail_panel ranges) (enumerate 0 details) = Inr (rv_panels v)"
  using assms by (auto simp: display_results_def res_bind_eq_Inr)

lemma detail_panel_Inr:
  assumes "detail_panel ranges (i, d) = Inr (title, rows)"
  shows "title = ''Simulation '' @ str_int (int i + 1) @ '' Details''"
    and "res_map (detail_row_of ranges) d = Inr rows"
  using assms by (auto simp: detail_panel_def res_bind_eq_Inr)

lemma detail_row_of_Inr:
  "detail_row_of ranges (x, j, c) = Inr row \<longleftrightarrow>
     (\<exists>sp. map_of ranges j = Some sp \<and> row = (x, j, c, str_int (fst sp) @ en_dash @ str_int (snd sp)))"
  by (auto simp: detail_row_of_def res_bind_eq_Inr range_text_Inr)

section \<open>Properties of the display\<close>

text \<open>
  C14. \<^verbatim>\<open>display_results\<close> returns exactly when every job recorded in the details has an
  entry in the range table it is given; otherwise the lookup of line 83 raises
  \<^verbatim>\<open>KeyError\<close>, and this is the only exception of the function.
\<close>

theorem display_results_outcome:
  "(is_ok (display_results sims probs cum details ranges) \<longleftrightarrow> jobs_have_ranges ranges details) \<and>
   (\<forall>e. display_results sims probs cum details ranges = Inl e \<longrightarrow> e = KeyError)"
  using display_results_ok_iff [of sims probs cum details ranges]
    display_results_Inl [of sims probs cum details ranges]
  by blast

theorem display_results_outcome_witness:
  "display_results [[''A'']] [(''A'', Fin 1)] [(''A'', Fin 1)] [[(5, ''A'', Fin 1)]]
     [(''B'', (1, 99))] = Inl KeyError \<and>
   \<not> jobs_have_ranges [(''B'', (1, 99))] [[(5, ''A'', Fin 1)]]"
proof -
  have "\<not> jobs_have_ranges [(''B'', (1, 99))] [[(5, ''A'', Fin 1)]]"
    by (simp add: jobs_have_ranges_def)
  with display_results_outcome [of "[[''A'']]" "[(''A'', Fin 1)]" "[(''A'', Fin 1)]"
      "[[(5, ''A'', Fin 1)]]" "[(''B'', (1, 99))]"]
  show ?thesis
    by (cases "display_results [[''A'']] [(''A'', Fin 1)] [(''A'', Fin 1)] [[(5, ''A'', Fin 1)]]
      [(''B'', (1, 99))]") auto
qed

text \<open>
  C34. What the display shows when it returns: one panel per simulation, titled
  \<^verbatim>\<open>Simulation i Details\<close> with \<open>i\<close> counted from 1, with one row per draw of that
  simulation in order, and each row holds the number, the job, the cumulative
  probability and the text \<^verbatim>\<open>start-end\<close> of the range that the table has for the job.
\<close>

theorem display_results_rows:
  assumes "display_results sims probs cum details ranges = Inr v"
    and "i < length details" and "k < length (details ! i)" and "details ! i ! k = (x, j, c)"
  shows "\<exists>sp. map_of ranges j = Some sp \<and> length (rv_panels v) = length details \<and>
    fst (rv_panels v ! i) = ''Simulation '' @ str_int (int i + 1) @ '' Details'' \<and>
    length (snd (rv_panels v ! i)) = length (details ! i) \<and>
    snd (rv_panels v ! i) ! k = (x, j, c, str_int (fst sp) @ en_dash @ str_int (snd sp))"
proof -
  note m = display_results_Inr(3) [OF assms(1)]
  from res_map_length [OF m] have len: "length (rv_panels v) = length details" by simp
  from res_map_nth [OF m, of i] assms(2)
  have "detail_panel ranges (i, details ! i) = Inr (rv_panels v ! i)"
    by (simp add: nth_enumerate_eq)
  then have p: "detail_panel ranges (i, details ! i)
      = Inr (fst (rv_panels v ! i), snd (rv_panels v ! i))" by simp
  note d = detail_panel_Inr [OF p]
  from res_map_nth [OF d(2) assms(3)] assms(4)
  have "detail_row_of ranges (x, j, c) = Inr (snd (rv_panels v ! i) ! k)" by simp
  with len d(1) res_map_length [OF d(2)] show ?thesis
    by (auto simp: detail_row_of_Inr)
qed

theorem display_results_rows_witness:
  "\<exists>v. display_results [[''A'']] [(''A'', Fin 1)] [(''A'', Fin 1)] [[(5, ''A'', Fin 1)]]
      [(''A'', (1, 99))] = Inr v \<and>
    snd (rv_panels v ! 0) ! 0 = (5, ''A'', Fin 1, str_int 1 @ en_dash @ str_int 99)"
proof -
  let ?d = "[[(5, ''A'', Fin 1)]]" and ?r = "[(''A'', (1::int, 99::int))]"
  have "is_ok (display_results [[''A'']] [(''A'', Fin 1)] [(''A'', Fin 1)] ?d ?r)"
    by (simp add: display_results_ok_iff jobs_have_ranges_def)
  then obtain v where v: "display_results [[''A'']] [(''A'', Fin 1)] [(''A'', Fin 1)] ?d ?r = Inr v"
    by (auto simp: is_ok_iff)
  from display_results_rows [OF v, of 0 0 5 "''A''" "Fin 1"] v show ?thesis by auto
qed

end
