(* ===== verification/Runner_Outcome.thy ===== *)
theory Runner_Outcome
  imports Simulation_Runner
begin

text \<open>
  The outcome of \<^verbatim>\<open>run_simulations\<close> on every input: when it returns and which exception
  it raises when it does not. A draw raises \<^verbatim>\<open>ValueError\<close> when the scale is empty and
  \<^verbatim>\<open>KeyError\<close> when the number drawn has no job; nothing else in the loops can raise,
  because every counter stays between 0 and the number of draws; the normalisation
  raises \<^verbatim>\<open>ZeroDivisionError\<close> when there are no draws at all.
\<close>

section \<open>Definitions\<close>

text \<open>Every number of the scale has a job.\<close>

definition resolves_scale :: "'k range_table \<Rightarrow> int \<Rightarrow> bool" where
  "resolves_scale ranges total_range \<longleftrightarrow>
     list_all (\<lambda>n. get_job_from_random ranges n \<noteq> None) [1..total_range]"

text \<open>The exception that a draw can raise on a table and a scale.\<close>

definition draw_fault :: "'k range_table \<Rightarrow> int \<Rightarrow> py_error \<Rightarrow> bool" where
  "draw_fault ranges total_range e \<longleftrightarrow>
     (if total_range < 1 then e = ValueError
      else e = KeyError \<and> \<not> resolves_scale ranges total_range)"

text \<open>
  The state of the counters before a draw: a dictionary over the jobs of the table,
  no count negative, fewer draws counted than the run makes in total.
\<close>

definition draw_ready :: "'k range_table \<Rightarrow> int \<Rightarrow> ('k, 'g) run_state \<Rightarrow> bool" where
  "draw_ready ranges total_draws s \<longleftrightarrow>
     counts_ok s \<and> set (keys (rs_job_counts s)) = set (keys ranges) \<and>
     sum_list (vals (rs_job_counts s)) < total_draws"

text \<open>The exceptions of a whole run: the fault of a draw, or no draws to divide by.\<close>

definition run_fault :: "'k range_table \<Rightarrow> int \<Rightarrow> int \<Rightarrow> int \<Rightarrow> py_error \<Rightarrow> bool" where
  "run_fault ranges total_range num_simulations jobs_per_simulation e \<longleftrightarrow>
     1 \<le> num_simulations \<and> 1 \<le> jobs_per_simulation \<and> draw_fault ranges total_range e \<or>
     e = ZeroDivisionError \<and> num_simulations * jobs_per_simulation = 0 \<and> ranges \<noteq> []"

section \<open>One draw\<close>

lemma resolves_scaleD:
  "resolves_scale ranges tr \<Longrightarrow> 1 \<le> n \<Longrightarrow> n \<le> tr \<Longrightarrow> \<exists>job. get_job_from_random ranges n = Some job"
  by (auto simp: resolves_scale_def list_all_iff)

lemma resolves_scaleI:
  "(\<And>n. 1 \<le> n \<Longrightarrow> n \<le> tr \<Longrightarrow> get_job_from_random ranges n \<noteq> None) \<Longrightarrow> resolves_scale ranges tr"
  by (auto simp: resolves_scale_def list_all_iff)

lemma partition_resolves_scale: "partitions_scale rt \<Longrightarrow> resolves_scale rt 99"
  by (rule resolves_scaleI) (use resolver_total in fastforce)

text \<open>Counting one more job keeps every counter between 0 and the number of draws.\<close>

lemma count_up_bounds:
  fixes d :: "('k, int) dict"
  assumes "\<forall>v \<in> set (vals d). 0 \<le> v" and "map_of d k = Some c" and "sum_list (vals d) < T"
  shows "\<forall>v \<in> set (vals (dict_set k (c + 1) d)). 0 \<le> v \<and> v \<le> T"
proof -
  from assms(2) have "c \<in> set (vals d)" by (rule map_of_in_vals)
  with assms(1) have "0 \<le> c + 1" by auto
  then have nn: "\<forall>v \<in> set (vals (dict_set k (c + 1) d)). 0 \<le> v"
    using assms(1) by (rule vals_dict_set_ball)
  have "sum_list (vals (dict_set k (c + 1) d)) = sum_list (vals d) + 1"
    using assms(2) by (simp add: sum_list_vals_dict_set)
  with assms(3) have "sum_list (vals (dict_set k (c + 1) d)) \<le> T" by simp
  with member_le_sum_list_int [OF nn] nn show ?thesis by fastforce
qed

lemma draw_step_ValueError:
  "tr < 1 \<Longrightarrow> draw_step gen ranges tr ns jp s i = Inl ValueError"
  by (simp add: draw_step_def py_randint_def)

lemma draw_step_KeyError:
  assumes "1 \<le> tr" and "get_job_from_random ranges (fst (gen 1 tr (rs_gen s))) = None"
  shows "draw_step gen ranges tr ns jp s i = Inl KeyError"
  using assms by (cases "gen 1 tr (rs_gen s)") (simp add: draw_step_def py_randint_def count_job_def)

lemma draw_step_Some:
  assumes "1 \<le> tr" and "get_job_from_random ranges (fst (gen 1 tr (rs_gen s))) = Some job"
    and "draw_ready ranges (ns * jp) s"
  shows "\<exists>s'. draw_step gen ranges tr ns jp s i = Inr s'"
proof -
  from assms(3) have ok: "\<forall>v \<in> set (vals (rs_job_counts s)). 0 \<le> v"
    and ks: "set (keys (rs_job_counts s)) = set (keys ranges)"
    and room: "sum_list (vals (rs_job_counts s)) < ns * jp"
    by (simp_all add: draw_ready_def counts_ok_def)
  from assms(2) have "job \<in> set (keys ranges)" by (rule resolver_Some_key)
  with ks have "\<exists>c. map_of (rs_job_counts s) job = Some c" by (intro in_keys_map_of) simp
  then obtain c where c: "map_of (rs_job_counts s) job = Some c" by blast
  let ?d = "dict_set job (c + 1) (rs_job_counts s)"
  from ok c room have b: "\<forall>v \<in> set (vals ?d). 0 \<le> v \<and> v \<le> ns * jp" by (rule count_up_bounds)
  from ok room have "0 < ns * jp" by (smt (verit) sum_list_nonneg)
  with b have "\<exists>p. running_cumulative ?d (ns * jp) = Inr p" by (rule running_cumulative_ok)
  then obtain p where "running_cumulative ?d (ns * jp) = Inr p" by blast
  with assms(1,2) c show ?thesis
    by (cases "gen 1 tr (rs_gen s)")
      (simp add: draw_step_def py_randint_def count_job_def dict_get_def)
qed

text \<open>The three cases together: a draw goes on, or raises the exception of its fault.\<close>

lemma draw_step_outcome:
  assumes "rng_ok gen" and "draw_ready ranges (ns * jp) s"
  shows "(\<exists>s'. draw_step gen ranges tr ns jp s i = Inr s') \<or>
         (\<exists>e. draw_step gen ranges tr ns jp s i = Inl e \<and> draw_fault ranges tr e)"
proof (cases "tr < 1")
  case True
  then show ?thesis by (simp add: draw_step_ValueError draw_fault_def)
next
  case False
  then have tr: "1 \<le> tr" by simp
  let ?x = "fst (gen 1 tr (rs_gen s))"
  from assms(1) tr have x: "1 \<le> ?x" "?x \<le> tr" by (simp_all add: rng_ok_def)
  show ?thesis
  proof (cases "get_job_from_random ranges ?x")
    case None
    with x have "\<not> resolves_scale ranges tr" by (auto dest: resolves_scaleD)
    with tr None show ?thesis by (simp add: draw_step_KeyError draw_fault_def)
  next
    case (Some job)
    with tr assms(2) show ?thesis by (blast intro: draw_step_Some)
  qed
qed


section \<open>The loops\<close>

text \<open>
  The inner loop from a state with room for its draws: it ends with the invariant of
  the draws, or raises the exception of a draw.
\<close>

lemma draws_loop_outcome:
  assumes "rng_ok gen" and "counts_ok s0" and "set (keys (rs_job_counts s0)) = set (keys ranges)"
    and "jp \<le> 0 \<or> sum_list (vals (rs_job_counts s0)) + int (nat jp) \<le> ns * jp"
  shows "(\<exists>t. res_fold (draw_step gen ranges tr ns jp) s0 (py_range jp) = Inr t \<and>
              draws_inv s0 (nat jp) t) \<or>
         (\<exists>e. res_fold (draw_step gen ranges tr ns jp) s0 (py_range jp) = Inl e \<and>
              draw_fault ranges tr e \<and> 1 \<le> jp)"
proof -
  let ?f = "draw_step gen ranges tr ns jp" and ?xs = "py_range jp"
  have "(\<exists>t. res_fold ?f s0 ?xs = Inr t \<and> draws_inv s0 (length ?xs) t) \<or>
        (\<exists>e. res_fold ?f s0 ?xs = Inl e \<and> draw_fault ranges tr e)"
  proof (rule res_fold_outcome [where P = "draws_inv s0" and Q = "draw_fault ranges tr"])
    show "draws_inv s0 0 s0" using assms(2) by (rule draws_inv_init)
  next
    fix i s
    assume i: "i < length ?xs" and inv: "draws_inv s0 i s"
    from i have "int i < jp" by simp
    with assms(4) have "sum_list (vals (rs_job_counts s0)) + int i < ns * jp" by auto
    with inv assms(3) have "draw_ready ranges (ns * jp) s"
      by (simp add: draws_inv_def draw_ready_def)
    from draw_step_outcome [OF assms(1) this] draws_inv_step [OF inv]
    show "(\<exists>s'. ?f s (?xs ! i) = Inr s' \<and> draws_inv s0 (Suc i) s') \<or>
          (\<exists>e. ?f s (?xs ! i) = Inl e \<and> draw_fault ranges tr e)"
      by blast
  qed
  then show ?thesis
    using res_fold_Inl_nonempty [of ?f s0 ?xs] by (auto simp: py_range_nonempty)
qed

text \<open>The outer loop, from the initial state of the counters.\<close>

lemma sim_step_outcome:
  assumes "rng_ok gen" and "sims_inv s0 (nat jp) m s" and "m < nat ns"
    and "set (keys (rs_job_counts s0)) = set (keys ranges)"
    and "sum_list (vals (rs_job_counts s0)) = 0"
  shows "(\<exists>s'. sim_step gen ranges tr ns jp s x = Inr s' \<and> sims_inv s0 (nat jp) (Suc m) s') \<or>
         (\<exists>e. sim_step gen ranges tr ns jp s x = Inl e \<and> draw_fault ranges tr e \<and> 1 \<le> jp)"
proof -
  let ?s1 = "start_run s"
  from assms(2) have "counts_ok s" unfolding sims_inv_def by blast
  then have ok: "counts_ok ?s1" by (simp add: counts_ok_def)
  from assms(2) have ks: "keys (rs_job_counts ?s1) = keys (rs_job_counts s0)"
    unfolding sims_inv_def by simp
  from assms(2,5) have sum: "sum_list (vals (rs_job_counts ?s1)) = int (m * nat jp)"
    unfolding sims_inv_def by simp
  from assms(3) have "Suc m * nat jp \<le> nat ns * nat jp" by (intro mult_le_mono1) simp
  then have "int (m * nat jp) + int (nat jp) \<le> int (nat ns * nat jp)"
    by (simp only: of_nat_add [symmetric] of_nat_le_iff) simp
  moreover have "0 < jp \<Longrightarrow> int (nat ns * nat jp) = ns * jp"
    using assms(3) by simp
  ultimately have room: "jp \<le> 0 \<or> sum_list (vals (rs_job_counts ?s1)) + int (nat jp) \<le> ns * jp"
    unfolding sum by linarith
  from ks assms(4) have "set (keys (rs_job_counts ?s1)) = set (keys ranges)" by simp
  from draws_loop_outcome [OF assms(1) ok this room, of tr]
  show ?thesis
  proof
    assume "\<exists>t. res_fold (draw_step gen ranges tr ns jp) ?s1 (py_range jp) = Inr t \<and>
      draws_inv ?s1 (nat jp) t"
    then have "\<exists>s'. sim_step gen ranges tr ns jp s x = Inr s'"
      by (auto simp: sim_step_def)
    with sims_inv_step [OF assms(2)] show ?thesis by blast
  next
    assume "\<exists>e. res_fold (draw_step gen ranges tr ns jp) ?s1 (py_range jp) = Inl e \<and>
      draw_fault ranges tr e \<and> 1 \<le> jp"
    then show ?thesis by (auto simp: sim_step_def)
  qed
qed

lemma run_loops_outcome:
  assumes "rng_ok gen"
  shows "(\<exists>s. run_loops gen ranges tr ns jp g = Inr s) \<or>
         (\<exists>e. run_loops gen ranges tr ns jp g = Inl e \<and> draw_fault ranges tr e \<and>
              1 \<le> ns \<and> 1 \<le> jp)"
proof -
  let ?s0 = "init_state ranges g"
  let ?f = "sim_step gen ranges tr ns jp" and ?xs = "py_range ns"
  have "(\<exists>t. res_fold ?f ?s0 ?xs = Inr t \<and> sims_inv ?s0 (nat jp) (length ?xs) t) \<or>
        (\<exists>e. res_fold ?f ?s0 ?xs = Inl e \<and> draw_fault ranges tr e \<and> 1 \<le> jp)"
  proof (rule res_fold_outcome [where P = "sims_inv ?s0 (nat jp)"
        and Q = "\<lambda>e. draw_fault ranges tr e \<and> 1 \<le> jp"])
    show "sims_inv ?s0 (nat jp) 0 ?s0" using counts_ok_init by (rule sims_inv_init)
  next
    fix m s
    assume "m < length ?xs" and "sims_inv ?s0 (nat jp) m s"
    then show "(\<exists>s'. ?f s (?xs ! m) = Inr s' \<and> sims_inv ?s0 (nat jp) (Suc m) s') \<or>
               (\<exists>e. ?f s (?xs ! m) = Inl e \<and> draw_fault ranges tr e \<and> 1 \<le> jp)"
      using init_counts_props(3) [of ranges]
      by (intro sim_step_outcome [OF assms]) simp_all
  qed
  then show ?thesis
    using res_fold_Inl_nonempty [of ?f ?s0 ?xs]
    by (auto simp: run_loops_def py_range_nonempty)
qed

section \<open>The normalisation\<close>

lemma probabilities_of_zero: "d \<noteq> [] \<Longrightarrow> probabilities_of d 0 = Inl ZeroDivisionError"
  by (cases d) (auto simp: probabilities_of_def)

lemma int_truediv_count_ok:
  assumes "T \<noteq> 0" and "c = 0 \<or> 0 \<le> c \<and> c \<le> T"
  shows "\<exists>p. int_truediv c T = Inr p"
proof (cases "c = 0")
  case True
  with assms(1) show ?thesis by (simp add: int_truediv_0_left)
next
  case False
  with assms have "0 \<le> c" "c \<le> T" "0 < T" by auto
  from int_truediv_share(1) [OF this] show ?thesis by blast
qed

lemma probabilities_of_ok:
  assumes "T \<noteq> 0" and "\<forall>c \<in> set (vals d). c = 0 \<or> 0 \<le> c \<and> c \<le> T"
  shows "\<exists>p. probabilities_of d T = Inr p"
proof -
  let ?f = "\<lambda>acc (job, count). res_bind (int_truediv count T) (\<lambda>p. Inr (dict_set job p acc))"
  have "\<exists>t. res_fold ?f [] d = Inr t \<and> True"
  proof (rule res_fold_ok [where P = "\<lambda>_. True"])
    fix acc :: "('a, pyfloat) dict" and x
    assume "x \<in> set d"
    with assms(2) have "snd x = 0 \<or> 0 \<le> snd x \<and> snd x \<le> T" by simp
    with assms(1) have "\<exists>p. int_truediv (snd x) T = Inr p" by (rule int_truediv_count_ok)
    then show "\<exists>s'. ?f acc x = Inr s' \<and> True" by (cases x) auto
  qed simp
  then show ?thesis by (simp add: probabilities_of_def)
qed

text \<open>The counters after the loops are shares of the number of draws.\<close>

lemma final_counts_bounds:
  assumes "run_loops gen ranges tr ns jp g = Inr s"
  shows "\<forall>c \<in> set (vals (rs_job_counts s)). c = 0 \<or> 0 \<le> c \<and> c \<le> ns * jp"
proof
  fix c
  assume c: "c \<in> set (vals (rs_job_counts s))"
  from run_loops_effect(1) [OF assms] have nn: "\<forall>v \<in> set (vals (rs_job_counts s)). 0 \<le> v"
    by (simp add: counts_ok_def)
  from member_le_sum_list_int [OF nn c] run_loops_effect(3) [OF assms]
  have le: "c \<le> int (nat ns * nat jp)" by simp
  from nn c have "0 \<le> c" by blast
  show "c = 0 \<or> 0 \<le> c \<and> c \<le> ns * jp"
  proof (cases "1 \<le> ns \<and> 1 \<le> jp")
    case True
    then have "int (nat ns * nat jp) = ns * jp" by simp
    with le \<open>0 \<le> c\<close> show ?thesis by simp
  next
    case False
    then have "nat ns * nat jp = 0" by auto
    with le \<open>0 \<le> c\<close> show ?thesis by simp
  qed
qed

section \<open>The whole run\<close>

lemma run_simulations_outcome:
  assumes "rng_ok gen"
  shows "(\<exists>out g'. run_simulations gen ranges tr ns jp g = Inr (out, g')) \<or>
         (\<exists>e. run_simulations gen ranges tr ns jp g = Inl e \<and> run_fault ranges tr ns jp e)"
proof -
  from run_loops_outcome [OF assms, of ranges tr ns jp g]
  consider s where "run_loops gen ranges tr ns jp g = Inr s"
    | e where "run_loops gen ranges tr ns jp g = Inl e" "draw_fault ranges tr e" "1 \<le> ns" "1 \<le> jp"
    by blast
  then show ?thesis
  proof cases
    case 1
    show ?thesis
    proof (cases "ns * jp = 0 \<and> rs_job_counts s \<noteq> []")
      case True
      then have z: "ns * jp = 0" and ne: "rs_job_counts s \<noteq> []" by blast+
      from ne run_loops_effect(2) [OF 1] have r: "ranges \<noteq> []" by auto
      have "probabilities_of (rs_job_counts s) (ns * jp) = Inl ZeroDivisionError"
        unfolding z using ne by (rule probabilities_of_zero)
      with 1 have "run_simulations gen ranges tr ns jp g = Inl ZeroDivisionError"
        by (simp add: run_simulations_def)
      moreover from z r have "run_fault ranges tr ns jp ZeroDivisionError"
        unfolding run_fault_def by blast
      ultimately show ?thesis by blast
    next
      case False
      have "\<exists>p. probabilities_of (rs_job_counts s) (ns * jp) = Inr p"
      proof (cases "rs_job_counts s = []")
        case True
        then show ?thesis by (simp add: probabilities_of_def)
      next
        case ne: False
        with False have "ns * jp \<noteq> 0" by simp
        then show ?thesis using final_counts_bounds [OF 1] by (rule probabilities_of_ok)
      qed
      with 1 show ?thesis by (auto simp: run_simulations_def)
    qed
  next
    case 2
    then show ?thesis by (simp add: run_simulations_def run_fault_def)
  qed
qed

lemma empty_scale_ValueError:
  assumes "tr < 1" and "1 \<le> ns" and "1 \<le> jp"
  shows "run_simulations gen ranges tr ns jp g = Inl ValueError"
proof -
  from assms(2,3) obtain r1 r2 where "py_range ns = 0 # r1" "py_range jp = 0 # r2"
    using py_range_Cons by blast
  with assms(1) show ?thesis
    by (simp add: run_simulations_def run_loops_def sim_step_def draw_step_ValueError)
qed

lemma no_draws_ZeroDivisionError:
  assumes "rng_ok gen" and "ns * jp = 0" and "ranges \<noteq> []"
  shows "run_simulations gen ranges tr ns jp g = Inl ZeroDivisionError"
proof -
  from run_loops_outcome [OF assms(1), of ranges tr ns jp g] assms(2)
  obtain s where s: "run_loops gen ranges tr ns jp g = Inr s" by auto
  from run_loops_effect(2) [OF s] assms(3) have "rs_job_counts s \<noteq> []" by auto
  then have "probabilities_of (rs_job_counts s) (ns * jp) = Inl ZeroDivisionError"
    unfolding assms(2) by (rule probabilities_of_zero)
  with s show ?thesis by (simp add: run_simulations_def)
qed

section \<open>Properties of the outcome\<close>

text \<open>
  C9. The runner returns: with a generator that keeps within its bounds, a scale of at
  least one number all of whose numbers have a job, and at least one simulation of at
  least one draw, \<^verbatim>\<open>run_simulations\<close> raises no exception. No division fails and no
  counter is missing, because every counter stays between 0 and the number of draws.
\<close>

theorem run_simulations_succeeds:
  assumes "rng_ok gen" and "1 \<le> tr" and "resolves_scale ranges tr" and "1 \<le> ns" and "1 \<le> jp"
  shows "is_ok (run_simulations gen ranges tr ns jp g)"
proof -
  from assms(2,3) have "\<not> draw_fault ranges tr e" for e by (simp add: draw_fault_def)
  moreover from assms(4,5) have "ns * jp \<noteq> 0" by simp
  ultimately have "\<not> run_fault ranges tr ns jp e" for e by (simp add: run_fault_def)
  with run_simulations_outcome [OF assms(1), of ranges tr ns jp g] show ?thesis by auto
qed

theorem run_simulations_succeeds_witness:
  "rng_ok lcg \<and> resolves_scale [(''A'', (1, 50)), (''B'', (51, 99))] 99 \<and>
   is_ok (run_simulations lcg [(''A'', (1, 50)), (''B'', (51, 99))] 99 3 4 7)"
  using run_simulations_succeeds [OF rng_ok_lcg _ partition_resolves_scale [OF partitions_two_jobs],
      of 3 4 7]
    rng_ok_lcg partition_resolves_scale [OF partitions_two_jobs]
  by simp

text \<open>
  C12. The exceptions of \<^verbatim>\<open>run_simulations\<close>, all of them, with a generator that keeps
  within its bounds: \<^verbatim>\<open>ValueError\<close> only on an empty scale (\<^verbatim>\<open>total_range\<close> below 1) when
  there is a draw to make; \<^verbatim>\<open>KeyError\<close> only when some number of the scale has no job;
  \<^verbatim>\<open>ZeroDivisionError\<close> only when the number of draws is 0 and the table is not empty.
  There is no other exception, and none that names the number drawn.
\<close>

theorem run_simulations_errors:
  assumes "rng_ok gen" and "run_simulations gen ranges tr ns jp g = Inl e"
  shows "e = ValueError \<and> tr < 1 \<and> 1 \<le> ns \<and> 1 \<le> jp \<or>
     e = KeyError \<and> 1 \<le> tr \<and> 1 \<le> ns \<and> 1 \<le> jp \<and> \<not> resolves_scale ranges tr \<or>
     e = ZeroDivisionError \<and> ns * jp = 0 \<and> ranges \<noteq> []"
proof -
  from run_simulations_outcome [OF assms(1), of ranges tr ns jp g] assms(2)
  have "run_fault ranges tr ns jp e" by auto
  then show ?thesis by (auto simp: run_fault_def draw_fault_def split: if_splits)
qed

theorem run_simulations_errors_witness:
  "rng_ok lcg \<and> run_simulations lcg [(''A'', (1, 50)), (''B'', (51, 99))] 99 0 5 7 = Inl ZeroDivisionError"
proof -
  have "run_simulations lcg [(''A'', (1, 50)), (''B'', (51, 99))] 99 0 5 7 = Inl ZeroDivisionError"
    by (simp add: run_simulations_def run_loops_def init_state_def init_counts_def
        probabilities_of_def)
  with run_simulations_errors [OF rng_ok_lcg this] rng_ok_lcg show ?thesis by simp
qed

text \<open>
  C30. The two faults that the parameters alone decide do occur. With \<^verbatim>\<open>total_range\<close>
  below 1 and at least one draw to make, \<^verbatim>\<open>run_simulations\<close> raises \<^verbatim>\<open>ValueError\<close> at the
  first draw, whatever the generator. When \<^verbatim>\<open>num_simulations * jobs_per_simulation\<close> is
  0 and the range table is not empty, it raises \<^verbatim>\<open>ZeroDivisionError\<close> when it normalises
  the counters.
\<close>

theorem run_simulations_faults:
  "(tr < 1 \<and> 1 \<le> ns \<and> 1 \<le> jp \<longrightarrow> run_simulations gen ranges tr ns jp g = Inl ValueError) \<and>
   (rng_ok gen \<and> ns * jp = 0 \<and> ranges \<noteq> [] \<longrightarrow>
      run_simulations gen ranges tr ns jp g = Inl ZeroDivisionError)"
  by (simp add: empty_scale_ValueError no_draws_ZeroDivisionError)

theorem run_simulations_faults_witness:
  "run_simulations lcg [(''A'', (1, 50)), (''B'', (51, 99))] 0 1 1 7 = Inl ValueError \<and>
   rng_ok lcg \<and>
   run_simulations lcg [(''A'', (1, 50)), (''B'', (51, 99))] 99 5 0 7 = Inl ZeroDivisionError"
  using run_simulations_faults [of 0 1 1 lcg "[(''A'', (1, 50)), (''B'', (51, 99))]" 7]
    run_simulations_faults [of 99 5 0 lcg "[(''A'', (1, 50)), (''B'', (51, 99))]" 7]
    rng_ok_lcg by simp

end
