(* ===== verification/Draw_Machine.thy ===== *)
theory Draw_Machine
  imports Simulation_Runner
begin

text \<open>
  What the loops of \<^verbatim>\<open>run_simulations\<close> compute, stated without counters and without
  exceptions: a machine whose state is the list of the draws made so far and the
  generator. A draw takes a number from the generator, looks up its job and records
  the number, the job and the cumulative probability, which is a function of the jobs
  drawn so far. The loops refine this machine: the record of details of a run that
  returns is a run of the machine, and the counters are the tally of its jobs.
\<close>

section \<open>Definitions\<close>

record ('k, 'g) machine =
  m_hist :: "'k draw_record list"
  m_gen :: 'g

definition jobs_of :: "'k draw_record list \<Rightarrow> 'k list" where
  "jobs_of h = map (\<lambda>r. fst (snd r)) h"

text \<open>The counters as a function of the jobs drawn: how often each job occurs.\<close>

definition tally :: "'k list \<Rightarrow> 'k list \<Rightarrow> ('k, int) dict" where
  "tally ks jobs = map (\<lambda>k. (k, int (count_list jobs k))) ks"

text \<open>
  The cumulative probability recorded with a draw: the float sum, in the order of the
  table, of each job's share of the total number of draws.
\<close>

definition cum_spec :: "'k list \<Rightarrow> int \<Rightarrow> 'k list \<Rightarrow> pyfloat" where
  "cum_spec ks total_draws jobs =
     foldl float_add (Fin 0)
       (map (\<lambda>k. Fin (fl64 (of_nat (count_list jobs k) / of_int total_draws))) ks)"

text \<open>One draw of the machine, as a function and as a step relation.\<close>

definition draw_once ::
  "'g randint \<Rightarrow> 'k range_table \<Rightarrow> int \<Rightarrow> int \<Rightarrow> ('k, 'g) machine \<Rightarrow> ('k, 'g) machine option" where
  "draw_once gen ranges total_range total_draws a =
     (if total_range < 1 then None
      else case gen 1 total_range (m_gen a) of (x, g') \<Rightarrow>
        (case get_job_from_random ranges x of
           None \<Rightarrow> None
         | Some job \<Rightarrow>
             Some \<lparr>m_hist = m_hist a @
                     [(x, job, cum_spec (keys ranges) total_draws (jobs_of (m_hist a) @ [job]))],
                   m_gen = g'\<rparr>))"

inductive machine_step ::
  "'g randint \<Rightarrow> 'k range_table \<Rightarrow> int \<Rightarrow> int \<Rightarrow> ('k, 'g) machine \<Rightarrow> ('k, 'g) machine \<Rightarrow> bool"
  for gen ranges total_range total_draws where
  draw: "1 \<le> total_range \<Longrightarrow> gen 1 total_range (m_gen a) = (x, g') \<Longrightarrow>
     get_job_from_random ranges x = Some job \<Longrightarrow>
     machine_step gen ranges total_range total_draws a
       \<lparr>m_hist = m_hist a @
          [(x, job, cum_spec (keys ranges) total_draws (jobs_of (m_hist a) @ [job]))],
        m_gen = g'\<rparr>"

inductive machine_run ::
  "'g randint \<Rightarrow> 'k range_table \<Rightarrow> int \<Rightarrow> int \<Rightarrow> ('k, 'g) machine \<Rightarrow> ('k, 'g) machine \<Rightarrow> bool"
  for gen ranges total_range total_draws a where
  run_refl: "machine_run gen ranges total_range total_draws a a"
| run_step: "machine_run gen ranges total_range total_draws a b \<Longrightarrow>
     machine_step gen ranges total_range total_draws b c \<Longrightarrow>
     machine_run gen ranges total_range total_draws a c"

fun machine_exec ::
  "'g randint \<Rightarrow> 'k range_table \<Rightarrow> int \<Rightarrow> int \<Rightarrow> nat \<Rightarrow> ('k, 'g) machine \<Rightarrow> ('k, 'g) machine option" where
  "machine_exec gen ranges total_range total_draws 0 a = Some a"
| "machine_exec gen ranges total_range total_draws (Suc n) a =
     (case draw_once gen ranges total_range total_draws a of
        None \<Rightarrow> None
      | Some b \<Rightarrow> machine_exec gen ranges total_range total_draws n b)"

text \<open>The machine states that the state of the loops stands for, inside and between simulations.\<close>

definition abs_in :: "('k, 'g) run_state \<Rightarrow> ('k, 'g) machine" where
  "abs_in s = \<lparr>m_hist = concat (rs_simulation_details s) @ rs_sim_details s, m_gen = rs_gen s\<rparr>"

definition abs_out :: "('k, 'g) run_state \<Rightarrow> ('k, 'g) machine" where
  "abs_out s = \<lparr>m_hist = concat (rs_simulation_details s), m_gen = rs_gen s\<rparr>"

text \<open>
  The coupling between a state of the loops and the machine state it stands for: the
  machine has run from the start to that state, the counters are the tally of its
  jobs, and the sequences are the jobs of the details.
\<close>

definition coupled ::
  "'g randint \<Rightarrow> 'k range_table \<Rightarrow> int \<Rightarrow> int \<Rightarrow> 'g \<Rightarrow> ('k, 'g) machine \<Rightarrow> ('k, 'g) run_state \<Rightarrow> bool" where
  "coupled gen ranges total_range total_draws g a s \<longleftrightarrow>
     machine_run gen ranges total_range total_draws \<lparr>m_hist = [], m_gen = g\<rparr> a \<and>
     rs_job_counts s = tally (keys ranges) (jobs_of (m_hist a)) \<and>
     rs_simulations s = map jobs_of (rs_simulation_details s)"

text \<open>
  A well-formed history: every record holds the job of its number and the cumulative
  probability of the jobs drawn up to and including it.
\<close>

definition hist_ok :: "'k range_table \<Rightarrow> int \<Rightarrow> 'k draw_record list \<Rightarrow> bool" where
  "hist_ok ranges total_draws h \<longleftrightarrow>
     (\<forall>i < length h.
        get_job_from_random ranges (fst (h ! i)) = Some (fst (snd (h ! i))) \<and>
        snd (snd (h ! i)) = cum_spec (keys ranges) total_draws (take (Suc i) (jobs_of h)))"

section \<open>The tally\<close>

lemma keys_tally [simp]: "keys (tally ks jobs) = ks"
  by (simp add: tally_def comp_def)

lemma tally_Nil [simp]: "tally [] jobs = []"
  by (simp add: tally_def)

lemma tally_Cons: "tally (k # ks) jobs = (k, int (count_list jobs k)) # tally ks jobs"
  by (simp add: tally_def)

lemma map_of_tally:
  "map_of (tally ks jobs) k = (if k \<in> set ks then Some (int (count_list jobs k)) else None)"
  by (induction ks) (simp_all add: tally_Cons)

lemma tally_append_other: "job \<notin> set ks \<Longrightarrow> tally ks (jobs @ [job]) = tally ks jobs"
  by (induction ks) (auto simp: tally_Cons)

lemma tally_count_up:
  assumes "distinct ks" and "job \<in> set ks"
  shows "dict_set job (int (count_list jobs job) + 1) (tally ks jobs) = tally ks (jobs @ [job])"
  using assms by (induction ks) (auto simp: tally_Cons tally_append_other)

lemma init_fold_fresh:
  assumes "distinct ks" and "set ks \<inter> set (keys d) = {}"
  shows "fold (\<lambda>job d. dict_set job (0::int) d) ks d = d @ map (\<lambda>k. (k, 0)) ks"
  using assms
proof (induction ks arbitrary: d)
  case Nil
  then show ?case by simp
next
  case (Cons k ks)
  from Cons.prems have k: "dict_set k 0 d = d @ [(k, 0)]" by (intro dict_set_fresh) auto
  from Cons.prems have "set ks \<inter> set (keys (d @ [(k, 0)])) = {}" by auto
  with Cons.IH [of "d @ [(k, 0)]"] Cons.prems(1) k show ?case by simp
qed

lemma tally_init: "is_dict ranges \<Longrightarrow> init_counts ranges = tally (keys ranges) []"
  using init_fold_fresh [of "keys ranges" "[]"] by (simp add: init_counts_def tally_def)

lemma sum_list_tally:
  assumes "distinct ks" and "set jobs \<subseteq> set ks"
  shows "sum_list (vals (tally ks jobs)) = int (length jobs)"
proof -
  have "sum_list (vals (tally ks jobs)) = int (\<Sum>k\<leftarrow>ks. count_list jobs k)"
    by (induction ks) (simp_all add: tally_Cons)
  also from assms(1) have "(\<Sum>k\<leftarrow>ks. count_list jobs k) = (\<Sum>k\<in>set ks. count_list jobs k)"
    by (simp add: sum_list_distinct_conv_sum_set)
  also from assms(2) have "\<dots> = length jobs"
    by (intro sum_count_set) simp_all
  finally show ?thesis .
qed


section \<open>The machine\<close>

inductive_cases machine_stepE: "machine_step gen ranges tr T a b"

lemma jobs_of_simps [simp]:
  "jobs_of [] = []" "jobs_of (h @ h') = jobs_of h @ jobs_of h'" "jobs_of [(x, job, c)] = [job]"
  "length (jobs_of h) = length h"
  by (simp_all add: jobs_of_def)

text \<open>The step relation is the graph of the step function.\<close>

lemma machine_step_iff:
  "machine_step gen ranges tr T a b \<longleftrightarrow> draw_once gen ranges tr T a = Some b"
proof
  assume "machine_step gen ranges tr T a b"
  then show "draw_once gen ranges tr T a = Some b"
    by (rule machine_stepE) (simp add: draw_once_def)
next
  assume "draw_once gen ranges tr T a = Some b"
  then show "machine_step gen ranges tr T a b"
    by (auto simp: draw_once_def split: if_splits prod.splits option.splits
        intro!: machine_step.draw)
qed

lemma machine_step_deterministic:
  "machine_step gen ranges tr T a b \<Longrightarrow> machine_step gen ranges tr T a c \<Longrightarrow> b = c"
  by (simp add: machine_step_iff)

lemma machine_step_hist:
  assumes "machine_step gen ranges tr T a b"
  obtains x job where "1 \<le> tr" and "x = fst (gen 1 tr (m_gen a))"
    and "get_job_from_random ranges x = Some job"
    and "m_hist b = m_hist a @ [(x, job, cum_spec (keys ranges) T (jobs_of (m_hist a) @ [job]))]"
  using assms by (rule machine_stepE) simp

lemma machine_run_front:
  assumes "machine_run gen ranges tr T b c" and "machine_step gen ranges tr T a b"
  shows "machine_run gen ranges tr T a c"
  using assms
  by (induction rule: machine_run.induct) (auto intro: machine_run.intros)

lemma machine_run_trans:
  assumes "machine_run gen ranges tr T b c" and "machine_run gen ranges tr T a b"
  shows "machine_run gen ranges tr T a c"
  using assms
  by (induction rule: machine_run.induct) (auto intro: machine_run.intros)

text \<open>A run of \<open>n\<close> steps is what the step function computes in \<open>n\<close> iterations.\<close>

lemma machine_exec_snoc:
  assumes "machine_exec gen ranges tr T n a = Some b" and "draw_once gen ranges tr T b = Some c"
  shows "machine_exec gen ranges tr T (Suc n) a = Some c"
  using assms
proof (induction n arbitrary: a)
  case 0
  then show ?case by simp
next
  case (Suc n)
  from Suc.prems(1) obtain a' where d: "draw_once gen ranges tr T a = Some a'"
    and e: "machine_exec gen ranges tr T n a' = Some b"
    by (auto split: option.splits)
  from e Suc.prems(2) have "machine_exec gen ranges tr T (Suc n) a' = Some c" by (rule Suc.IH)
  with d show ?case by simp
qed

lemma machine_run_exec:
  assumes "machine_run gen ranges tr T a b"
  shows "length (m_hist a) \<le> length (m_hist b) \<and>
     machine_exec gen ranges tr T (length (m_hist b) - length (m_hist a)) a = Some b"
  using assms
proof (induction rule: machine_run.induct)
  case run_refl
  show ?case by simp
next
  case (run_step b c)
  from run_step.hyps(2) have len: "length (m_hist c) = Suc (length (m_hist b))"
    by (rule machine_step_hist) simp
  with run_step.IH have "length (m_hist c) - length (m_hist a)
      = Suc (length (m_hist b) - length (m_hist a))" by (simp add: Suc_diff_le)
  moreover from run_step.hyps(2) have "draw_once gen ranges tr T b = Some c"
    by (simp add: machine_step_iff)
  ultimately show ?case
    using run_step.IH len by (simp only: machine_exec_snoc) simp
qed

lemma machine_exec_run:
  assumes "machine_exec gen ranges tr T n a = Some b"
  shows "machine_run gen ranges tr T a b"
  using assms
proof (induction n arbitrary: a)
  case 0
  then show ?case by (simp add: machine_run.run_refl)
next
  case (Suc n)
  then obtain a' where "draw_once gen ranges tr T a = Some a'"
    and "machine_exec gen ranges tr T n a' = Some b"
    by (auto split: option.splits)
  with Suc.IH [of a'] show ?case
    by (auto simp: machine_step_iff intro: machine_run_front)
qed

text \<open>
  The step relation and the step function of the machine agree: a state is reached
  by a run of the relation exactly when some number of iterations of the function
  returns it.
\<close>

lemma machine_run_iff_exec:
  "machine_run gen ranges tr T a b \<longleftrightarrow> (\<exists>n. machine_exec gen ranges tr T n a = Some b)"
  using machine_run_exec [of gen ranges tr T a b] machine_exec_run [of gen ranges tr T _ a b]
  by blast

text \<open>Invariants of the machine, by induction on its runs.\<close>

lemma hist_ok_snoc:
  assumes "hist_ok ranges T h" and "get_job_from_random ranges x = Some job"
  shows "hist_ok ranges T (h @ [(x, job, cum_spec (keys ranges) T (jobs_of h @ [job]))])"
  unfolding hist_ok_def
proof (intro allI impI)
  fix i
  let ?h = "h @ [(x, job, cum_spec (keys ranges) T (jobs_of h @ [job]))]"
  assume "i < length ?h"
  then consider "i < length h" | "i = length h" by fastforce
  then show "get_job_from_random ranges (fst (?h ! i)) = Some (fst (snd (?h ! i))) \<and>
     snd (snd (?h ! i)) = cum_spec (keys ranges) T (take (Suc i) (jobs_of ?h))"
  proof cases
    case 1
    with assms(1) show ?thesis by (simp add: hist_ok_def nth_append)
  next
    case 2
    with assms(2) show ?thesis by simp
  qed
qed

lemma machine_run_hist_ok:
  assumes "machine_run gen ranges tr T a b" and "hist_ok ranges T (m_hist a)"
  shows "hist_ok ranges T (m_hist b)"
  using assms
proof (induction rule: machine_run.induct)
  case run_refl
  then show ?case .
next
  case (run_step b c)
  from run_step.hyps(2) run_step.IH [OF run_step.prems] show ?case
    by (elim machine_step_hist) (simp add: hist_ok_snoc)
qed

lemma machine_run_in_range:
  assumes "machine_run gen ranges tr T a b" and "rng_ok gen"
    and "\<forall>r \<in> set (m_hist a). 1 \<le> fst r \<and> fst r \<le> tr"
  shows "\<forall>r \<in> set (m_hist b). 1 \<le> fst r \<and> fst r \<le> tr"
  using assms
proof (induction rule: machine_run.induct)
  case run_refl
  then show ?case by simp
next
  case (run_step b c)
  from run_step.hyps(2) obtain x job where "1 \<le> tr" and x: "x = fst (gen 1 tr (m_gen b))"
    and h: "m_hist c = m_hist b @ [(x, job, cum_spec (keys ranges) T (jobs_of (m_hist b) @ [job]))]"
    by (rule machine_step_hist)
  from \<open>rng_ok gen\<close> \<open>1 \<le> tr\<close> x have "1 \<le> x \<and> x \<le> tr" by (simp add: rng_ok_def)
  with run_step.IH run_step.prems h show ?case by simp
qed


section \<open>The loops refine the machine\<close>

text \<open>
  The rule for the two nested loops: \<open>Q\<close> holds between simulations and \<open>P\<close> inside one;
  resetting the run leads from \<open>Q\<close> to \<open>P\<close>, a draw keeps \<open>P\<close>, appending the run leads
  back to \<open>Q\<close>.
\<close>

lemma run_loops_rule:
  assumes "run_loops gen ranges tr ns jp g = Inr s"
    and init: "Q (init_state ranges g)"
    and start: "\<And>s. Q s \<Longrightarrow> P (start_run s)"
    and draw: "\<And>s i s'. P s \<Longrightarrow> draw_step gen ranges tr ns jp s i = Inr s' \<Longrightarrow> P s'"
    and finish: "\<And>s. P s \<Longrightarrow> Q (finish_run s)"
  shows "Q s"
proof -
  from assms(1) have "res_fold (sim_step gen ranges tr ns jp) (init_state ranges g)
      (py_range ns) = Inr s"
    by (simp add: run_loops_def)
  then show ?thesis using init
  proof (rule res_fold_invariant)
    fix s x s'
    assume q: "Q s" and "sim_step gen ranges tr ns jp s x = Inr s'"
    then obtain t where
      loop: "res_fold (draw_step gen ranges tr ns jp) (start_run s) (py_range jp) = Inr t" and
      s': "s' = finish_run t"
      by (auto elim: sim_step_Inr)
    from loop start [OF q] have "P t" by (rule res_fold_invariant) (rule draw)
    then show "Q s'" unfolding s' by (rule finish)
  qed
qed

text \<open>The sum of line 55 on the tally is the cumulative probability of the machine.\<close>

lemma cumulative_fold_tally:
  assumes "set ks' \<subseteq> set ks"
    and "res_fold (\<lambda>acc j. res_bind (dict_get (tally ks jobs) j) (\<lambda>c.
           res_bind (int_truediv c T) (\<lambda>p. Inr (float_add acc p)))) acc ks' = Inr r"
  shows "r = foldl float_add acc
    (map (\<lambda>k. Fin (fl64 (of_nat (count_list jobs k) / of_int T))) ks')"
  using assms
proof (induction ks' arbitrary: acc)
  case Nil
  then show ?case by simp
next
  case (Cons k ks')
  from Cons.prems(1) have "dict_get (tally ks jobs) k = Inr (int (count_list jobs k))"
    by (simp add: dict_get_def map_of_tally)
  with Cons.prems(2) obtain p where p: "int_truediv (int (count_list jobs k)) T = Inr p"
    and rest: "res_fold (\<lambda>acc j. res_bind (dict_get (tally ks jobs) j) (\<lambda>c.
           res_bind (int_truediv c T) (\<lambda>p. Inr (float_add acc p)))) (float_add acc p) ks' = Inr r"
    by (auto simp: res_bind_eq_Inr)
  from int_truediv_Inr [OF p] have "p = Fin (fl64 (of_nat (count_list jobs k) / of_int T))"
    by simp
  with Cons.IH [OF _ rest] Cons.prems(1) show ?case by simp
qed

lemma running_cumulative_tally:
  "running_cumulative (tally ks jobs) T = Inr r \<Longrightarrow> r = cum_spec ks T jobs"
  unfolding running_cumulative_def cum_spec_def keys_tally
  by (rule cumulative_fold_tally [OF subset_refl])

text \<open>The four transitions of the loops keep the coupling.\<close>

lemma coupled_init:
  "is_dict ranges \<Longrightarrow> coupled gen ranges tr T g (abs_out (init_state ranges g)) (init_state ranges g)"
  by (simp add: coupled_def abs_out_def tally_init machine_run.run_refl)

lemma coupled_start:
  "coupled gen ranges tr T g (abs_out s) s \<Longrightarrow>
   coupled gen ranges tr T g (abs_in (start_run s)) (start_run s)"
  by (simp add: coupled_def abs_out_def abs_in_def)

lemma coupled_draw:
  assumes "coupled gen ranges tr T g (abs_in s) s" and "is_dict ranges"
    and "draw_step gen ranges tr ns jp s i = Inr s'" and "T = ns * jp"
    and "rs_sequence s = jobs_of (rs_sim_details s)"
  shows "coupled gen ranges tr T g (abs_in s') s' \<and> rs_sequence s' = jobs_of (rs_sim_details s')"
proof -
  let ?h = "m_hist (abs_in s)"
  from assms(1) have run: "machine_run gen ranges tr T \<lparr>m_hist = [], m_gen = g\<rparr> (abs_in s)"
    and counts: "rs_job_counts s = tally (keys ranges) (jobs_of ?h)"
    and sims: "rs_simulations s = map jobs_of (rs_simulation_details s)"
    by (simp_all add: coupled_def)
  from assms(3) obtain x job c cum where
    r: "py_randint gen 1 tr (rs_gen s) = Inr (x, rs_gen s')" and
    j: "get_job_from_random ranges x = Some job" and
    c: "map_of (rs_job_counts s) job = Some c" and
    cum: "running_cumulative (dict_set job (c + 1) (rs_job_counts s)) (ns * jp) = Inr cum" and
    s': "s' = s\<lparr>rs_job_counts := dict_set job (c + 1) (rs_job_counts s),
            rs_sim_details := rs_sim_details s @ [(x, job, cum)],
            rs_sequence := rs_sequence s @ [job],
            rs_gen := rs_gen s'\<rparr>"
    by (rule draw_step_Inr)
  from r have tr: "1 \<le> tr" and gen: "gen 1 tr (m_gen (abs_in s)) = (x, rs_gen s')"
    by (auto simp: py_randint_def abs_in_def split: if_splits)
  from c have cj: "c = int (count_list (jobs_of ?h) job)" and mem: "job \<in> set (keys ranges)"
    by (auto simp: counts map_of_tally split: if_splits)
  from assms(2) mem have up: "dict_set job (c + 1) (rs_job_counts s)
      = tally (keys ranges) (jobs_of ?h @ [job])"
    unfolding counts cj by (rule tally_count_up)
  with cum assms(4) have cum': "cum = cum_spec (keys ranges) T (jobs_of ?h @ [job])"
    by (simp add: running_cumulative_tally)
  have a': "abs_in s' = \<lparr>m_hist = ?h @ [(x, job, cum)], m_gen = rs_gen s'\<rparr>"
    by (subst s') (simp add: abs_in_def)
  from tr gen j have "machine_step gen ranges tr T (abs_in s) (abs_in s')"
    unfolding a' cum' by (rule machine_step.draw)
  with run have "machine_run gen ranges tr T \<lparr>m_hist = [], m_gen = g\<rparr> (abs_in s')"
    by (rule machine_run.run_step)
  moreover have "rs_job_counts s' = tally (keys ranges) (jobs_of (m_hist (abs_in s')))"
    unfolding a' by (subst s') (simp add: up)
  moreover from sims have "rs_simulations s' = map jobs_of (rs_simulation_details s')"
    by (subst (1 2) s') simp
  moreover from assms(5) have "rs_sequence s' = jobs_of (rs_sim_details s')"
    by (subst (1 2) s') simp
  ultimately show ?thesis by (simp add: coupled_def)
qed

lemma coupled_finish:
  "coupled gen ranges tr T g (abs_in s) s \<Longrightarrow> rs_sequence s = jobs_of (rs_sim_details s) \<Longrightarrow>
   coupled gen ranges tr T g (abs_out (finish_run s)) (finish_run s)"
  by (simp add: coupled_def abs_out_def abs_in_def)

lemma run_loops_coupled:
  assumes "is_dict ranges" and "run_loops gen ranges tr ns jp g = Inr s"
  shows "coupled gen ranges tr (ns * jp) g (abs_out s) s"
  using assms(2)
proof (rule run_loops_rule [where
      Q = "\<lambda>s. coupled gen ranges tr (ns * jp) g (abs_out s) s" and
      P = "\<lambda>s. coupled gen ranges tr (ns * jp) g (abs_in s) s \<and>
                 rs_sequence s = jobs_of (rs_sim_details s)"])
  fix s i s'
  assume "coupled gen ranges tr (ns * jp) g (abs_in s) s \<and>
    rs_sequence s = jobs_of (rs_sim_details s)"
    and "draw_step gen ranges tr ns jp s i = Inr s'"
  then show "coupled gen ranges tr (ns * jp) g (abs_in s') s' \<and>
    rs_sequence s' = jobs_of (rs_sim_details s')"
    using assms(1) by (intro coupled_draw [where s = s]) simp_all
qed (simp_all add: assms(1) coupled_init coupled_start coupled_finish)


section \<open>The result as a function of the history\<close>

lemma jobs_of_concat: "jobs_of (concat hs) = concat (map jobs_of hs)"
  by (induction hs) simp_all

lemma probabilities_fold_tally:
  assumes "distinct ks" and "set ks \<inter> set (keys acc) = {}"
    and "res_fold (\<lambda>d (job, count). res_bind (int_truediv count T) (\<lambda>p. Inr (dict_set job p d)))
           acc (tally ks jobs) = Inr r"
  shows "r = acc @ map (\<lambda>k. (k, Fin (fl64 (of_nat (count_list jobs k) / of_int T)))) ks"
  using assms
proof (induction ks arbitrary: acc)
  case Nil
  then show ?case by simp
next
  case (Cons k ks)
  let ?p = "Fin (fl64 (of_nat (count_list jobs k) / of_int T))"
  from Cons.prems(3) obtain p where p: "int_truediv (int (count_list jobs k)) T = Inr p"
    and rest: "res_fold (\<lambda>d (job, count). res_bind (int_truediv count T)
        (\<lambda>p. Inr (dict_set job p d))) (dict_set k p acc) (tally ks jobs) = Inr r"
    by (auto simp: tally_Cons res_bind_eq_Inr)
  from int_truediv_Inr [OF p] have p': "p = ?p" by simp
  from Cons.prems(2) have acc: "dict_set k p acc = acc @ [(k, p)]"
    by (intro dict_set_fresh) simp
  from Cons.prems(1,2) have "set ks \<inter> set (keys (acc @ [(k, p)])) = {}" by auto
  with Cons.IH [of "acc @ [(k, p)]"] Cons.prems(1) rest acc p' show ?case by simp
qed

lemma probabilities_of_tally:
  assumes "distinct ks" and "probabilities_of (tally ks jobs) T = Inr r"
  shows "r = map (\<lambda>k. (k, Fin (fl64 (of_nat (count_list jobs k) / of_int T)))) ks"
  using probabilities_fold_tally [OF assms(1), of "[]" T jobs r] assms(2)
  by (simp add: probabilities_of_def)

text \<open>A well-formed history is determined by its numbers.\<close>

lemma hist_okD:
  assumes "hist_ok ranges T h" and "i < length h"
  shows "get_job_from_random ranges (fst (h ! i)) = Some (fst (snd (h ! i)))"
    and "snd (snd (h ! i)) = cum_spec (keys ranges) T (take (Suc i) (jobs_of h))"
  using assms unfolding hist_ok_def by blast+

lemma hist_ok_job_keys:
  assumes "hist_ok ranges T h" and "r \<in> set h"
  shows "fst (snd r) \<in> set (keys ranges)"
proof -
  from assms(2) obtain i where "i < length h" and "h ! i = r" by (auto simp: in_set_conv_nth)
  with hist_okD(1) [OF assms(1), of i]
  have "get_job_from_random ranges (fst r) = Some (fst (snd r))" by simp
  then show ?thesis by (rule resolver_Some_key)
qed

lemma hist_ok_jobs:
  assumes "hist_ok ranges T h1" and "hist_ok ranges T h2" and "map fst h1 = map fst h2"
  shows "jobs_of h1 = jobs_of h2"
proof (rule nth_equalityI)
  from assms(3) have len: "length h1 = length h2" by (rule map_eq_imp_length_eq)
  then show "length (jobs_of h1) = length (jobs_of h2)" by simp
  fix i
  assume "i < length (jobs_of h1)"
  with len have i: "i < length h1" "i < length h2" by simp_all
  from assms(3) have "map fst h1 ! i = map fst h2 ! i" by (rule arg_cong)
  with i have "fst (h1 ! i) = fst (h2 ! i)" by simp
  with hist_okD(1) [OF assms(1) i(1)] hist_okD(1) [OF assms(2) i(2)]
  have "fst (snd (h1 ! i)) = fst (snd (h2 ! i))" by simp
  with i show "jobs_of h1 ! i = jobs_of h2 ! i" by (simp add: jobs_of_def)
qed

lemma hist_ok_determined:
  assumes "hist_ok ranges T h1" and "hist_ok ranges T h2" and "map fst h1 = map fst h2"
  shows "h1 = h2"
proof (rule nth_equalityI)
  from assms(3) show len: "length h1 = length h2" by (rule map_eq_imp_length_eq)
  fix i
  assume i: "i < length h1"
  with len have i2: "i < length h2" by simp
  note jobs = hist_ok_jobs [OF assms]
  from assms(3) have "map fst h1 ! i = map fst h2 ! i" by (rule arg_cong)
  with i i2 have "fst (h1 ! i) = fst (h2 ! i)" by simp
  moreover from jobs have "jobs_of h1 ! i = jobs_of h2 ! i" by (rule arg_cong)
  with i i2 have "fst (snd (h1 ! i)) = fst (snd (h2 ! i))" by (simp add: jobs_of_def)
  moreover from hist_okD(2) [OF assms(1) i] hist_okD(2) [OF assms(2) i2] jobs
  have "snd (snd (h1 ! i)) = snd (snd (h2 ! i))" by simp
  ultimately show "h1 ! i = h2 ! i" by (simp add: prod_eq_iff)
qed

text \<open>What a run that returns has computed, in terms of the machine.\<close>

lemma run_loops_machine:
  assumes "is_dict ranges" and "run_loops gen ranges tr ns jp g = Inr s"
  shows "machine_exec gen ranges tr (ns * jp) (nat ns * nat jp) \<lparr>m_hist = [], m_gen = g\<rparr>
      = Some (abs_out s)"
    and "rs_job_counts s = tally (keys ranges) (jobs_of (concat (rs_simulation_details s)))"
    and "rs_simulations s = map jobs_of (rs_simulation_details s)"
    and "hist_ok ranges (ns * jp) (concat (rs_simulation_details s))"
proof -
  let ?a0 = "\<lparr>m_hist = [], m_gen = g\<rparr>"
  from run_loops_coupled [OF assms]
  have run: "machine_run gen ranges tr (ns * jp) ?a0 (abs_out s)"
    and "rs_job_counts s = tally (keys ranges) (jobs_of (m_hist (abs_out s)))"
    and "rs_simulations s = map jobs_of (rs_simulation_details s)"
    by (simp_all add: coupled_def)
  then show "rs_job_counts s = tally (keys ranges) (jobs_of (concat (rs_simulation_details s)))"
    and "rs_simulations s = map jobs_of (rs_simulation_details s)"
    by (simp_all add: abs_out_def)
  from length_concat_uniform [OF run_loops_effect(7) [OF assms(2)]] run_loops_effect(5) [OF assms(2)]
  have "length (m_hist (abs_out s)) = nat ns * nat jp"
    by (simp add: abs_out_def)
  with machine_run_exec [OF run]
  show "machine_exec gen ranges tr (ns * jp) (nat ns * nat jp) ?a0 = Some (abs_out s)" by simp
  have "hist_ok ranges (ns * jp) (m_hist ?a0)" by (simp add: hist_ok_def)
  with run have "hist_ok ranges (ns * jp) (m_hist (abs_out s))" by (rule machine_run_hist_ok)
  then show "hist_ok ranges (ns * jp) (concat (rs_simulation_details s))"
    by (simp add: abs_out_def)
qed


lemma run_simulations_machine:
  assumes "is_dict ranges"
    and "run_simulations gen ranges tr ns jp g = Inr ((sims, probs, cum, details), g')"
  shows "machine_exec gen ranges tr (ns * jp) (nat ns * nat jp) \<lparr>m_hist = [], m_gen = g\<rparr>
      = Some \<lparr>m_hist = concat details, m_gen = g'\<rparr>"
    and "sims = map jobs_of details"
    and "probs = map (\<lambda>k. (k, Fin (fl64 (of_nat (count_list (concat sims) k) / of_int (ns * jp)))))
      (keys ranges)"
    and "hist_ok ranges (ns * jp) (concat details)"
    and "length details = nat ns" and "\<forall>q \<in> set details. length q = nat jp"
proof -
  from assms(2) obtain s where s: "run_loops gen ranges tr ns jp g = Inr s"
    and p: "probabilities_of (rs_job_counts s) (ns * jp) = Inr probs"
    and out: "sims = rs_simulations s" "details = rs_simulation_details s" "g' = rs_gen s"
    by (rule run_simulations_Inr)
  note m = run_loops_machine [OF assms(1) s]
  from m(1) show "machine_exec gen ranges tr (ns * jp) (nat ns * nat jp) \<lparr>m_hist = [], m_gen = g\<rparr>
      = Some \<lparr>m_hist = concat details, m_gen = g'\<rparr>"
    by (simp add: abs_out_def out)
  from m(3) show sims: "sims = map jobs_of details" by (simp add: out)
  from m(4) show "hist_ok ranges (ns * jp) (concat details)" by (simp add: out)
  from run_loops_effect(5,7) [OF s]
  show "length details = nat ns" and "\<forall>q \<in> set details. length q = nat jp"
    by (simp_all add: out)
  from m(2) sims have "rs_job_counts s = tally (keys ranges) (concat sims)"
    by (simp add: jobs_of_concat out)
  with p have "probabilities_of (tally (keys ranges) (concat sims)) (ns * jp) = Inr probs"
    by simp
  with assms(1) show "probs = map (\<lambda>k. (k, Fin (fl64 (of_nat (count_list (concat sims) k) /
      of_int (ns * jp))))) (keys ranges)"
    by (rule probabilities_of_tally)
qed

lemma run_simulations_cum:
  "run_simulations gen ranges tr ns jp g = Inr ((sims, probs, cum, details), g') \<Longrightarrow>
   cum = cumulative_of probs"
  by (erule run_simulations_Inr)

text \<open>A second run of the example of two draws, with a longer list of numbers to replay.\<close>

lemma run_simulations_two_draws_more:
  "run_simulations replay [(''A'', (1, 50)), (''B'', (51, 99))] 99 1 2 [5, 60, 7] =
     Inr (([[''A'', ''B'']],
           [(''A'', Fin (1 / 2)), (''B'', Fin (1 / 2))],
           [(''A'', Fin (1 / 2)), (''B'', Fin 1)],
           [[(5, ''A'', Fin (1 / 2)), (60, ''B'', Fin 1)]]), [7])"
  by (simp add: run_eval float_half_facts cong: res_bind_weak_cong)

lemma two_jobs_dict: "is_dict [(''A'', (1::int, 50::int)), (''B'', (51, 99))]"
  by simp

section \<open>Properties of the machine and of the refinement\<close>

text \<open>
  C5. Refinement: the loops of \<^verbatim>\<open>run_simulations\<close> implement the machine. When they end
  on a range table that is a dictionary, the concatenated details are the history of
  the machine after \<^verbatim>\<open>num_simulations * jobs_per_simulation\<close> draws from the initial
  generator state, the generator is the machine's, the counters are the tally of the
  jobs of that history, and each sequence is the list of jobs of its details.
\<close>

theorem run_loops_refines:
  assumes "is_dict ranges" and "run_loops gen ranges tr ns jp g = Inr s"
  shows "machine_exec gen ranges tr (ns * jp) (nat ns * nat jp) \<lparr>m_hist = [], m_gen = g\<rparr>
      = Some (abs_out s) \<and>
    rs_job_counts s = tally (keys ranges) (jobs_of (m_hist (abs_out s))) \<and>
    rs_simulations s = map jobs_of (rs_simulation_details s)"
  using run_loops_machine(1-3) [OF assms] by (simp add: abs_out_def)

theorem run_loops_refines_witness:
  "is_dict [(''A'', (1::int, 50::int)), (''B'', (51, 99))] \<and>
   machine_exec replay [(''A'', (1, 50)), (''B'', (51, 99))] 99 (1 * 2) (nat 1 * nat 2)
     \<lparr>m_hist = [], m_gen = [5, 60]\<rparr>
     = Some \<lparr>m_hist = [(5, ''A'', Fin (1 / 2)), (60, ''B'', Fin 1)], m_gen = []\<rparr>"
  using run_loops_refines [OF two_jobs_dict run_loops_two_draws] two_jobs_dict
  by (simp add: abs_out_def)

text \<open>
  C21. The details that \<^verbatim>\<open>run_simulations\<close> returns are well formed: every record holds
  the job that \<^verbatim>\<open>get_job_from_random\<close> gives for its number and the cumulative
  probability of the jobs drawn up to it, every number lies between 1 and
  \<^verbatim>\<open>total_range\<close> when the generator keeps within its bounds, and the sequences are the
  jobs of the details.
\<close>

theorem run_simulations_trace:
  assumes "is_dict ranges" and "rng_ok gen"
    and "run_simulations gen ranges tr ns jp g = Inr ((sims, probs, cum, details), g')"
  shows "hist_ok ranges (ns * jp) (concat details) \<and>
    list_all (\<lambda>r. 1 \<le> fst r \<and> fst r \<le> tr) (concat details) \<and> sims = map jobs_of details"
proof -
  note m = run_simulations_machine [OF assms(1,3)]
  from m(1) have "machine_run gen ranges tr (ns * jp) \<lparr>m_hist = [], m_gen = g\<rparr>
      \<lparr>m_hist = concat details, m_gen = g'\<rparr>"
    by (rule machine_exec_run)
  from machine_run_in_range [OF this assms(2)] m(2,4) show ?thesis
    by (simp add: list_all_iff)
qed

theorem run_simulations_trace_witness:
  "is_dict [(''A'', (1::int, 50::int)), (''B'', (51, 99))] \<and> rng_ok replay \<and>
   hist_ok [(''A'', (1, 50)), (''B'', (51, 99))] (1 * 2)
     (concat [[(5, ''A'', Fin (1 / 2)), (60, ''B'', Fin 1)]]) \<and>
   [[''A'', ''B'']] = map jobs_of [[(5, ''A'', Fin (1 / 2)), (60, ''B'', Fin 1)]]"
  using run_simulations_trace [OF two_jobs_dict rng_ok_replay run_simulations_two_draws]
    rng_ok_replay two_jobs_dict
  by simp

text \<open>
  C10. The probabilities that \<^verbatim>\<open>run_simulations\<close> returns are the relative frequencies
  of the jobs in the returned sequences: one entry per job of the range table, in
  table order, whose value is the float nearest to the number of occurrences of the
  job divided by \<^verbatim>\<open>num_simulations * jobs_per_simulation\<close>.
\<close>

theorem run_simulations_probabilities:
  assumes "is_dict ranges"
    and "run_simulations gen ranges tr ns jp g = Inr ((sims, probs, cum, details), g')"
  shows "probs = map (\<lambda>k. (k, Fin (fl64 (of_nat (count_list (concat sims) k) / of_int (ns * jp)))))
    (keys ranges)"
  using assms by (rule run_simulations_machine(3))

theorem run_simulations_probabilities_witness:
  "is_dict [(''A'', (1::int, 50::int)), (''B'', (51, 99))] \<and>
   [(''A'', Fin (1 / 2)), (''B'', Fin (1 / 2))] =
     map (\<lambda>k. (k, Fin (fl64 (of_nat (count_list (concat [[''A'', ''B'']]) k) / of_int (1 * 2)))))
       (keys [(''A'', (1::int, 50::int)), (''B'', (51, 99))])"
  using run_simulations_probabilities [OF two_jobs_dict run_simulations_two_draws] two_jobs_dict
  by simp

text \<open>
  C20. Determinism under fixed draws: the result of \<^verbatim>\<open>run_simulations\<close> depends on the
  generator only through the numbers drawn. Two runs on the same table with the same
  parameters, with any two generators, whose details record the same numbers return
  the same sequences, probabilities, cumulative probabilities and details.
\<close>

theorem run_simulations_determined:
  assumes "is_dict ranges"
    and "run_simulations gen1 ranges tr ns jp g1 = Inr ((sims1, probs1, cum1, details1), g1')"
    and "run_simulations gen2 ranges tr ns jp g2 = Inr ((sims2, probs2, cum2, details2), g2')"
    and "map fst (concat details1) = map fst (concat details2)"
  shows "sims1 = sims2 \<and> probs1 = probs2 \<and> cum1 = cum2 \<and> details1 = details2"
proof -
  note m1 = run_simulations_machine [OF assms(1,2)]
    and m2 = run_simulations_machine [OF assms(1,3)]
  from m1(4) m2(4) assms(4) have "concat details1 = concat details2"
    by (rule hist_ok_determined)
  with m1(5,6) m2(5,6) have d: "details1 = details2"
    by (intro concat_uniform_inj [where m = "nat jp"]) simp_all
  with m1(2) m2(2) have "sims1 = sims2" by simp
  with m1(3) m2(3) have "probs1 = probs2" by simp
  with d \<open>sims1 = sims2\<close> run_simulations_cum [OF assms(2)] run_simulations_cum [OF assms(3)]
  show ?thesis by simp
qed

theorem run_simulations_determined_witness:
  "is_dict [(''A'', (1::int, 50::int)), (''B'', (51, 99))] \<and>
   run_simulations replay [(''A'', (1, 50)), (''B'', (51, 99))] 99 1 2 [5, 60] =
     Inr (([[''A'', ''B'']], [(''A'', Fin (1 / 2)), (''B'', Fin (1 / 2))],
           [(''A'', Fin (1 / 2)), (''B'', Fin 1)],
           [[(5, ''A'', Fin (1 / 2)), (60, ''B'', Fin 1)]]), []) \<and>
   run_simulations replay [(''A'', (1, 50)), (''B'', (51, 99))] 99 1 2 [5, 60, 7] =
     Inr (([[''A'', ''B'']], [(''A'', Fin (1 / 2)), (''B'', Fin (1 / 2))],
           [(''A'', Fin (1 / 2)), (''B'', Fin 1)],
           [[(5, ''A'', Fin (1 / 2)), (60, ''B'', Fin 1)]]), [7])"
  using run_simulations_determined
      [OF two_jobs_dict run_simulations_two_draws run_simulations_two_draws_more]
    run_simulations_two_draws run_simulations_two_draws_more two_jobs_dict
  by simp

end
