(* ===== verification/App_Shell.thy ===== *)
theory App_Shell
  imports Job_Input Result_Display Runner_Outcome Draw_Machine
begin

text \<open>
  The application, \<^verbatim>\<open>main\<close> of \<^verbatim>\<open>src/app.py\<close> (lines 92 to 136). Streamlit runs the function
  from the top on every interaction; what lasts from one run to the next is the session
  state and the state of the random number generator. A run is a function of the
  user's entries (the record \<open>ui_event\<close>: the form, the two run parameters, and which
  button was pressed) and of that lasting state; it returns the new lasting state and
  either the page it has rendered or the exception that ended it. Assignments to the
  session state made before an exception last. The application is a state machine
  whose steps are the runs; its reachable states satisfy an invariant that rules out
  every exception.
\<close>

section \<open>Definitions\<close>

text \<open>The session state: every key of \<^verbatim>\<open>st.session_state\<close> that \<^verbatim>\<open>main\<close> uses, absent or set.\<close>

record session =
  ss_job_data :: "string freq_table option"
  ss_ranges :: "string range_table option"
  ss_total_range :: "int option"
  ss_show_range :: "bool option"
  ss_simulations_ran :: "bool option"
  ss_simulations :: "string list list option"
  ss_probabilities :: "(string, pyfloat) dict option"
  ss_cumulative_prob :: "(string, pyfloat) dict option"
  ss_simulation_details :: "string draw_record list list option"

definition empty_session :: session where
  "empty_session =
     \<lparr>ss_job_data = None, ss_ranges = None, ss_total_range = None, ss_show_range = None,
      ss_simulations_ran = None, ss_simulations = None, ss_probabilities = None,
      ss_cumulative_prob = None, ss_simulation_details = None\<rparr>"

text \<open>What the user has entered and pressed when a run starts.\<close>

record ui_event =
  ev_form :: job_form
  ev_generate :: bool
  ev_num_sim :: int
  ev_jobs_per_sim :: int
  ev_run :: bool

text \<open>What a run has put on the page: the lines of the ranges and the results, if shown.\<close>

record page =
  pg_ranges :: "string list option"
  pg_results :: "results_view option"

text \<open>\<^verbatim>\<open>st.session_state.get(key, False)\<close> and the attribute access \<^verbatim>\<open>st.session_state.key\<close>.\<close>

definition session_flag :: "bool option \<Rightarrow> bool" where
  "session_flag v = (case v of None \<Rightarrow> False | Some b \<Rightarrow> b)"

definition session_attr :: "'a option \<Rightarrow> 'a result" where
  "session_attr v = (case v of None \<Rightarrow> Inl AttributeError | Some x \<Rightarrow> Inr x)"

text \<open>Lines 96 and 97.\<close>

definition init_job_data :: "session \<Rightarrow> session" where
  "init_job_data s = (if ss_job_data s = None then s\<lparr>ss_job_data := Some []\<rparr> else s)"

text \<open>The handler of the button \<^verbatim>\<open>Generate Ranges\<close>, lines 102 to 107.\<close>

definition generate_ranges :: "string freq_table \<Rightarrow> session \<Rightarrow> session result" where
  "generate_ranges job_data s =
     res_bind (create_ranges job_data) (\<lambda>(ranges, total_range).
       Inr (s\<lparr>ss_job_data := Some job_data,
              ss_ranges := Some ranges,
              ss_total_range := Some total_range,
              ss_show_range := Some True,
              ss_simulations_ran := Some False\<rparr>))"

text \<open>The lines of the ranges, lines 112 and 113.\<close>

definition range_lines :: "session \<Rightarrow> string list result" where
  "range_lines s =
     res_bind (session_attr (ss_ranges s)) (\<lambda>ranges.
       Inr (map (\<lambda>(job, (start, end1)). job @ '': '' @ str_int start @ en_dash @ str_int end1)
              ranges))"

text \<open>The handler of the button \<^verbatim>\<open>Run Simulations\<close>, lines 119 to 126.\<close>

definition run_clicked ::
  "'g randint \<Rightarrow> int \<Rightarrow> int \<Rightarrow> session \<times> 'g \<Rightarrow> (session \<times> 'g) result" where
  "run_clicked gen num_simulations jobs_per_simulation sg =
     (case sg of (s, g) \<Rightarrow>
        res_bind (session_attr (ss_ranges s)) (\<lambda>ranges.
        res_bind (session_attr (ss_total_range s)) (\<lambda>total_range.
        res_bind (run_simulations gen ranges total_range num_simulations jobs_per_simulation g)
          (\<lambda>((simulations, probabilities, cumulative_prob, simulation_details), g').
             Inr (s\<lparr>ss_simulations := Some simulations,
                    ss_probabilities := Some probabilities,
                    ss_cumulative_prob := Some cumulative_prob,
                    ss_simulation_details := Some simulation_details,
                    ss_simulations_ran := Some True\<rparr>, g')))))"

text \<open>The block under \<^verbatim>\<open>show_range\<close>, lines 110 to 126.\<close>

definition ranges_block ::
  "'g randint \<Rightarrow> ui_event \<Rightarrow> session \<times> 'g \<Rightarrow> ((session \<times> 'g) \<times> string list) result" where
  "ranges_block gen ev sg =
     res_bind (range_lines (fst sg)) (\<lambda>lines.
       let num_simulations = number_input 1 None (ev_num_sim ev);
           jobs_per_simulation = number_input 1 None (ev_jobs_per_sim ev)
       in if ev_run ev
          then res_bind (run_clicked gen num_simulations jobs_per_simulation sg)
                 (\<lambda>sg'. Inr (sg', lines))
          else Inr (sg, lines))"

text \<open>The call of \<^verbatim>\<open>display_results\<close>, lines 130 to 136, and the block with its guard.\<close>

definition results_block :: "session \<Rightarrow> results_view result" where
  "results_block s =
     res_bind (session_attr (ss_simulations s)) (\<lambda>simulations.
     res_bind (session_attr (ss_probabilities s)) (\<lambda>probabilities.
     res_bind (session_attr (ss_cumulative_prob s)) (\<lambda>cumulative_prob.
     res_bind (session_attr (ss_simulation_details s)) (\<lambda>simulation_details.
     res_bind (session_attr (ss_ranges s)) (\<lambda>ranges.
       display_results simulations probabilities cumulative_prob simulation_details ranges)))))"

definition shown_results :: "session \<Rightarrow> results_view option result" where
  "shown_results s =
     (if session_flag (ss_simulations_ran s)
      then res_bind (results_block s) (\<lambda>v. Inr (Some v))
      else Inr None)"

text \<open>
  One run of \<^verbatim>\<open>main\<close>. An exception ends the run with the session state as it is at
  that point.
\<close>

definition main :: "'g randint \<Rightarrow> ui_event \<Rightarrow> session \<times> 'g \<Rightarrow> (session \<times> 'g) \<times> page result" where
  "main gen ev sg =
     (case sg of (s0, g) \<Rightarrow>
        let s1 = init_job_data s0;
            job_data = get_job_data_ui (ev_form ev)
        in case (if ev_generate ev then generate_ranges job_data s1 else Inr s1) of
             Inl e \<Rightarrow> ((s1, g), Inl e)
           | Inr s2 \<Rightarrow>
               (case (if session_flag (ss_show_range s2)
                      then res_bind (ranges_block gen ev (s2, g)) (\<lambda>(sg', lines). Inr (sg', Some lines))
                      else Inr ((s2, g), None)) of
                  Inl e \<Rightarrow> ((s2, g), Inl e)
                | Inr ((s3, g3), shown) \<Rightarrow>
                    (case shown_results s3 of
                       Inl e \<Rightarrow> ((s3, g3), Inl e)
                     | Inr res \<Rightarrow> ((s3, g3), Inr \<lparr>pg_ranges = shown, pg_results = res\<rparr>))))"

text \<open>
  The page as a function of the session state alone: the lines of the ranges and the
  results, each under its flag.
\<close>

definition render :: "session \<Rightarrow> page result" where
  "render s =
     res_bind (if session_flag (ss_show_range s)
               then res_bind (range_lines s) (\<lambda>lines. Inr (Some lines))
               else Inr None) (\<lambda>shown.
     res_bind (shown_results s) (\<lambda>res.
       Inr \<lparr>pg_ranges = shown, pg_results = res\<rparr>))"

text \<open>The states that the application reaches from a fresh session by any runs.\<close>

inductive reachable :: "'g randint \<Rightarrow> 'g \<Rightarrow> session \<times> 'g \<Rightarrow> bool" for gen g0 where
  fresh: "reachable gen g0 (empty_session, g0)"
| rerun: "reachable gen g0 sg \<Longrightarrow> reachable gen g0 (fst (main gen ev sg))"

text \<open>
  The invariant of the session: when the ranges are shown, they are there and partition
  the scale of 99; when results are shown, the ranges are shown too, the results are
  there, and every job of the details has a range.
\<close>

definition ranges_ready :: "session \<Rightarrow> bool" where
  "ranges_ready s \<longleftrightarrow>
     ss_total_range s = Some 99 \<and>
     (case ss_ranges s of None \<Rightarrow> False | Some ranges \<Rightarrow> partitions_scale ranges)"

definition results_ready :: "session \<Rightarrow> bool" where
  "results_ready s \<longleftrightarrow>
     ss_simulations s \<noteq> None \<and> ss_probabilities s \<noteq> None \<and> ss_cumulative_prob s \<noteq> None \<and>
     (case ss_simulation_details s of
        None \<Rightarrow> False
      | Some details \<Rightarrow>
          (case ss_ranges s of None \<Rightarrow> False | Some ranges \<Rightarrow> jobs_have_ranges ranges details))"

definition session_inv :: "session \<Rightarrow> bool" where
  "session_inv s \<longleftrightarrow>
     (if session_flag (ss_show_range s) then ranges_ready s else True) \<and>
     (if session_flag (ss_simulations_ran s)
      then session_flag (ss_show_range s) \<and> results_ready s else True)"


section \<open>The parts of a run\<close>

lemma session_flag_simps [simp]:
  "session_flag None = False" "session_flag (Some b) = b"
  by (simp_all add: session_flag_def)

lemma session_attr_simps [simp]:
  "session_attr None = Inl AttributeError" "session_attr (Some x) = Inr x"
  by (simp_all add: session_attr_def)

lemma session_inv_init_job_data [simp]: "session_inv (init_job_data s) = session_inv s"
  by (simp add: init_job_data_def session_inv_def ranges_ready_def results_ready_def
      cong: option.case_cong)

lemma init_job_data_fields [simp]:
  "ss_ranges (init_job_data s) = ss_ranges s"
  "ss_total_range (init_job_data s) = ss_total_range s"
  "ss_show_range (init_job_data s) = ss_show_range s"
  "ss_simulations_ran (init_job_data s) = ss_simulations_ran s"
  "ss_simulations (init_job_data s) = ss_simulations s"
  "ss_probabilities (init_job_data s) = ss_probabilities s"
  "ss_cumulative_prob (init_job_data s) = ss_cumulative_prob s"
  "ss_simulation_details (init_job_data s) = ss_simulation_details s"
  by (simp_all add: init_job_data_def)

lemma init_job_data_set [simp]:
  "ss_job_data (init_job_data s) \<noteq> None" "\<exists>d. ss_job_data (init_job_data s) = Some d"
  by (auto simp: init_job_data_def)

lemma init_job_data_idem: "ss_job_data s \<noteq> None \<Longrightarrow> init_job_data s = s"
  by (simp add: init_job_data_def)

lemma session_inv_empty: "session_inv empty_session"
  by (simp add: session_inv_def empty_session_def)

text \<open>Pressing \<^verbatim>\<open>Generate Ranges\<close> with the table of the form.\<close>

lemma generate_ranges_form:
  obtains rt where "create_ranges (get_job_data_ui form) = Inr (rt, 99)"
    and "partitions_scale rt" and "keys rt = keys (get_job_data_ui form)"
    and "generate_ranges (get_job_data_ui form) s =
      Inr (s\<lparr>ss_job_data := Some (get_job_data_ui form), ss_ranges := Some rt,
             ss_total_range := Some 99, ss_show_range := Some True,
             ss_simulations_ran := Some False\<rparr>)"
proof -
  from create_ranges_valid [OF get_job_data_ui_valid_freqs, of form]
  obtain rt where c: "create_ranges (get_job_data_ui form) = Inr (rt, 99)"
    and p: "partitions_scale rt" "keys rt = keys (get_job_data_ui form)" by auto
  from c have "generate_ranges (get_job_data_ui form) s =
      Inr (s\<lparr>ss_job_data := Some (get_job_data_ui form), ss_ranges := Some rt,
             ss_total_range := Some 99, ss_show_range := Some True,
             ss_simulations_ran := Some False\<rparr>)"
    by (simp add: generate_ranges_def)
  with c p show ?thesis by (rule that)
qed

lemma generate_step_ok:
  assumes "session_inv s"
  shows "\<exists>s2. (if ev_generate ev then generate_ranges (get_job_data_ui (ev_form ev)) (init_job_data s)
                else Inr (init_job_data s)) = Inr s2 \<and> session_inv s2 \<and>
    (session_flag (ss_show_range s2) \<longleftrightarrow> ev_generate ev \<or> session_flag (ss_show_range s)) \<and>
    (session_flag (ss_simulations_ran s2) \<longleftrightarrow>
       \<not> ev_generate ev \<and> session_flag (ss_simulations_ran s)) \<and>
    ss_job_data s2 \<noteq> None"
proof (cases "ev_generate ev")
  case True
  obtain rt where "partitions_scale rt"
    and "generate_ranges (get_job_data_ui (ev_form ev)) (init_job_data s) =
      Inr (init_job_data s\<lparr>ss_job_data := Some (get_job_data_ui (ev_form ev)), ss_ranges := Some rt,
             ss_total_range := Some 99, ss_show_range := Some True,
             ss_simulations_ran := Some False\<rparr>)"
    by (rule generate_ranges_form)
  with True show ?thesis by (simp add: session_inv_def ranges_ready_def)
next
  case False
  with assms show ?thesis by simp
qed

text \<open>Pressing \<^verbatim>\<open>Run Simulations\<close> when the ranges are ready.\<close>

lemma run_clicked_ok:
  assumes "rng_ok gen" and "ranges_ready s" and "1 \<le> ns" and "1 \<le> jp"
  shows "\<exists>s' g'. run_clicked gen ns jp (s, g) = Inr (s', g') \<and> results_ready s' \<and>
    ss_simulations_ran s' = Some True \<and> ss_ranges s' = ss_ranges s \<and>
    ss_total_range s' = ss_total_range s \<and> ss_show_range s' = ss_show_range s \<and>
    ss_job_data s' = ss_job_data s"
proof -
  from assms(2) obtain rt where rt: "ss_ranges s = Some rt" "ss_total_range s = Some 99"
    and part: "partitions_scale rt"
    by (auto simp: ranges_ready_def split: option.splits)
  from part have d: "is_dict rt" by (simp add: partitions_scale_def)
  from part assms(3,4) have "\<not> run_fault rt 99 ns jp e" for e
    by (simp add: run_fault_def draw_fault_def partition_resolves_scale)
  with run_simulations_outcome [OF assms(1), of rt 99 ns jp g]
  obtain sims probs cum details g' where
    r: "run_simulations gen rt 99 ns jp g = Inr ((sims, probs, cum, details), g')"
    by (metis prod_cases4)
  have "fst (snd q) \<in> set (keys rt)" if "q \<in> set (concat details)" for q
    using run_simulations_machine(4) [OF d r] that by (rule hist_ok_job_keys)
  then have "jobs_have_ranges rt details"
    unfolding jobs_have_ranges_def list_all_iff set_concat by blast
  with rt r show ?thesis by (simp add: run_clicked_def results_ready_def)
qed

lemma ranges_step_ok:
  assumes "rng_ok gen" and "session_inv s"
  shows "\<exists>s3 g3 shown.
    (if session_flag (ss_show_range s)
     then res_bind (ranges_block gen ev (s, g)) (\<lambda>(sg', lines). Inr (sg', Some lines))
     else Inr ((s, g), None)) = Inr ((s3, g3), shown) \<and> session_inv s3 \<and>
    (shown = None \<longleftrightarrow> \<not> session_flag (ss_show_range s)) \<and>
    ss_show_range s3 = ss_show_range s \<and> ss_ranges s3 = ss_ranges s \<and>
    ss_job_data s3 = ss_job_data s \<and>
    (session_flag (ss_simulations_ran s3) \<longleftrightarrow>
       session_flag (ss_show_range s) \<and> ev_run ev \<or> session_flag (ss_simulations_ran s)) \<and>
    (if session_flag (ss_show_range s) then res_bind (range_lines s) (\<lambda>lines. Inr (Some lines))
     else Inr None) = Inr shown"
proof (cases "session_flag (ss_show_range s)")
  case False
  with assms(2) show ?thesis by simp
next
  case True
  with assms(2) have ready: "ranges_ready s" by (simp add: session_inv_def)
  then obtain lines where l: "range_lines s = Inr lines"
    by (auto simp: ranges_ready_def range_lines_def split: option.splits)
  show ?thesis
  proof (cases "ev_run ev")
    case False
    with True l assms(2) show ?thesis by (simp add: ranges_block_def)
  next
    case run: True
    from run_clicked_ok [OF assms(1) ready number_input_lower number_input_lower,
        of "ev_num_sim ev" "ev_jobs_per_sim ev" g]
    obtain s' g' where "run_clicked gen (number_input 1 None (ev_num_sim ev))
        (number_input 1 None (ev_jobs_per_sim ev)) (s, g) = Inr (s', g')"
      and "results_ready s'" "ss_simulations_ran s' = Some True"
      and "ss_ranges s' = ss_ranges s" "ss_total_range s' = ss_total_range s"
      and "ss_show_range s' = ss_show_range s" "ss_job_data s' = ss_job_data s"
      by blast
    with True run l ready show ?thesis
      by (simp add: ranges_block_def session_inv_def ranges_ready_def)
  qed
qed

lemma results_step_ok:
  assumes "session_inv s"
  shows "\<exists>res. shown_results s = Inr res \<and>
    (res = None \<longleftrightarrow> \<not> session_flag (ss_simulations_ran s))"
proof (cases "session_flag (ss_simulations_ran s)")
  case False
  then show ?thesis by (simp add: shown_results_def)
next
  case True
  with assms have "results_ready s" by (simp add: session_inv_def)
  then obtain sims probs cum details ranges where
    f: "ss_simulations s = Some sims" "ss_probabilities s = Some probs"
      "ss_cumulative_prob s = Some cum" "ss_simulation_details s = Some details"
      "ss_ranges s = Some ranges"
    and j: "jobs_have_ranges ranges details"
    by (auto simp: results_ready_def split: option.splits)
  from j have "is_ok (display_results sims probs cum details ranges)"
    by (simp add: display_results_ok_iff)
  with True f show ?thesis by (auto simp: shown_results_def results_block_def is_ok_iff)
qed

section \<open>A whole run\<close>

lemma main_idle:
  assumes "\<not> ev_generate ev" and "\<not> ev_run ev"
  shows "main gen ev (s, g) = ((init_job_data s, g), render (init_job_data s))"
proof (cases "session_flag (ss_show_range s)")
  case False
  with assms show ?thesis
    by (cases "shown_results (init_job_data s)") (simp_all add: main_def render_def)
next
  case True
  show ?thesis
  proof (cases "range_lines (init_job_data s)")
    case (Inl e)
    with assms True show ?thesis by (simp add: main_def render_def ranges_block_def)
  next
    case (Inr lines)
    with assms True show ?thesis
      by (cases "shown_results (init_job_data s)")
        (simp_all add: main_def render_def ranges_block_def)
  qed
qed

lemma main_outcome:
  assumes "rng_ok gen" and "session_inv s"
  shows "\<exists>s' g' pg. main gen ev (s, g) = ((s', g'), Inr pg) \<and> session_inv s' \<and>
    (session_flag (ss_show_range s') \<longleftrightarrow> ev_generate ev \<or> session_flag (ss_show_range s)) \<and>
    (session_flag (ss_simulations_ran s') \<longleftrightarrow>
       session_flag (ss_show_range s') \<and> ev_run ev \<or>
       \<not> ev_generate ev \<and> session_flag (ss_simulations_ran s)) \<and>
    (pg_ranges pg \<noteq> None \<longleftrightarrow> session_flag (ss_show_range s')) \<and>
    (pg_results pg \<noteq> None \<longleftrightarrow> session_flag (ss_simulations_ran s')) \<and>
    render s' = Inr pg \<and> ss_job_data s' \<noteq> None"
proof -
  from generate_step_ok [OF assms(2), of ev] obtain s2 where
    a: "(if ev_generate ev then generate_ranges (get_job_data_ui (ev_form ev)) (init_job_data s)
         else Inr (init_job_data s)) = Inr s2" and "session_inv s2"
    and f2: "session_flag (ss_show_range s2) \<longleftrightarrow> ev_generate ev \<or> session_flag (ss_show_range s)"
      "session_flag (ss_simulations_ran s2) \<longleftrightarrow>
         \<not> ev_generate ev \<and> session_flag (ss_simulations_ran s)"
      "ss_job_data s2 \<noteq> None" by blast
  from ranges_step_ok [OF assms(1) this(2), of ev g] obtain s3 g3 shown where
    b: "(if session_flag (ss_show_range s2)
         then res_bind (ranges_block gen ev (s2, g)) (\<lambda>(sg', lines). Inr (sg', Some lines))
         else Inr ((s2, g), None)) = Inr ((s3, g3), shown)" and "session_inv s3"
    and f3: "shown = None \<longleftrightarrow> \<not> session_flag (ss_show_range s2)"
      "ss_show_range s3 = ss_show_range s2" "ss_job_data s3 = ss_job_data s2"
      "session_flag (ss_simulations_ran s3) \<longleftrightarrow>
         session_flag (ss_show_range s2) \<and> ev_run ev \<or> session_flag (ss_simulations_ran s2)"
    and r3: "ss_ranges s3 = ss_ranges s2"
      "(if session_flag (ss_show_range s2)
        then res_bind (range_lines s2) (\<lambda>lines. Inr (Some lines)) else Inr None) = Inr shown"
    by blast
  from results_step_ok [OF this(2)] obtain res where
    c: "shown_results s3 = Inr res"
    and f4: "res = None \<longleftrightarrow> \<not> session_flag (ss_simulations_ran s3)" by blast
  from a b c have m: "main gen ev (s, g) = ((s3, g3), Inr \<lparr>pg_ranges = shown, pg_results = res\<rparr>)"
    by (simp add: main_def Let_def)
  from r3(1) have "range_lines s3 = range_lines s2" by (simp add: range_lines_def)
  with r3(2) f3(2) c have "render s3 = Inr \<lparr>pg_ranges = shown, pg_results = res\<rparr>"
    by (auto simp: render_def split: if_splits)
  with m \<open>session_inv s3\<close> f2 f3 f4 show ?thesis by auto
qed

lemma reachable_inv:
  assumes "reachable gen g0 sg" and "rng_ok gen"
  shows "session_inv (fst sg)"
  using assms
proof (induction rule: reachable.induct)
  case fresh
  show ?case by (simp add: session_inv_empty)
next
  case (rerun sg ev)
  from main_outcome [OF rerun.prems rerun.IH [OF rerun.prems], of ev "snd sg"]
  show ?case by auto
qed


text \<open>An example of entries: the form as first shown, both buttons, one simulation of two draws.\<close>

lemma reachable_example:
  "reachable replay [5, 60]
     (fst (main replay \<lparr>ev_form = default_form, ev_generate = True, ev_num_sim = 1,
        ev_jobs_per_sim = 2, ev_run = True\<rparr> (empty_session, [5, 60])))"
  by (intro reachable.intros)

text \<open>The ranges of the form as first shown.\<close>

lemma create_ranges_default_form:
  "create_ranges (get_job_data_ui default_form) =
     Inr ([(''J1'', (1, 33)), (''J2'', (34, 66)), (''J3'', (67, 99))], 99)"
proof -
  have "range_size 10 30 = Inr 33" by code_simp
  then show ?thesis
    by (simp add: default_form_table create_ranges_eval cong: res_bind_weak_cong)
qed

section \<open>Properties of the application\<close>

text \<open>
  C3. The application never shows an exception: in every state that is reached from a
  fresh session by any sequence of runs, with any entries and buttons, a further run
  of \<^verbatim>\<open>main\<close> ends with a page. The form yields a valid table, so \<^verbatim>\<open>create_ranges\<close>
  returns; the ranges partition the scale, so every draw finds its job; and the results
  that are displayed were computed from the ranges that are displayed.
\<close>

theorem app_never_raises:
  assumes "rng_ok gen" and "reachable gen g0 sg"
  shows "is_ok (snd (main gen ev sg))"
  using main_outcome [OF assms(1) reachable_inv [OF assms(2,1)], of ev "snd sg"] by auto

theorem app_never_raises_witness:
  "rng_ok replay \<and> reachable replay [5, 60] (empty_session, [5, 60]) \<and>
   is_ok (snd (main replay \<lparr>ev_form = default_form, ev_generate = True, ev_num_sim = 1,
     ev_jobs_per_sim = 2, ev_run = True\<rparr> (empty_session, [5, 60])))"
  using app_never_raises [OF rng_ok_replay reachable.fresh [of replay "[5, 60]"]]
    rng_ok_replay reachable.fresh [of replay "[5, 60]"] by simp

text \<open>
  C7. The invariant of the session state holds in every reachable state: when the flag
  \<^verbatim>\<open>show_range\<close> is set, the ranges are stored, the scale is 99 and the ranges partition
  it; when the flag \<^verbatim>\<open>simulations_ran\<close> is set, so is \<^verbatim>\<open>show_range\<close>, the four results are
  stored, and every job of the stored details has a range in the stored table.
\<close>

theorem session_invariant:
  assumes "rng_ok gen" and "reachable gen g0 sg"
  shows "session_inv (fst sg)"
  using assms(2,1) by (rule reachable_inv)

theorem session_invariant_witness:
  "rng_ok replay \<and>
   session_inv (fst (fst (main replay \<lparr>ev_form = default_form, ev_generate = True, ev_num_sim = 1,
     ev_jobs_per_sim = 2, ev_run = True\<rparr> (empty_session, [5, 60]))))"
  using session_invariant [OF rng_ok_replay reachable_example] rng_ok_replay by simp

text \<open>
  C15. Pressing \<^verbatim>\<open>Generate Ranges\<close> alone, in any state of the session: the run stores the
  table of the form, the ranges that \<^verbatim>\<open>create_ranges\<close> returns for it and the scale 99,
  sets \<^verbatim>\<open>show_range\<close>, clears \<^verbatim>\<open>simulations_ran\<close>, shows one line per range and no
  results, and leaves the generator as it was. Results of an earlier table are not
  shown with the new ranges.
\<close>

theorem generate_discards_results:
  assumes "ev_generate ev" and "\<not> ev_run ev"
  shows "\<exists>rt lines. create_ranges (get_job_data_ui (ev_form ev)) = Inr (rt, 99) \<and>
    length lines = length rt \<and>
    main gen ev (s, g) =
      ((init_job_data s\<lparr>ss_job_data := Some (get_job_data_ui (ev_form ev)), ss_ranges := Some rt,
          ss_total_range := Some 99, ss_show_range := Some True,
          ss_simulations_ran := Some False\<rparr>, g),
       Inr \<lparr>pg_ranges = Some lines, pg_results = None\<rparr>)"
proof -
  obtain rt where c: "create_ranges (get_job_data_ui (ev_form ev)) = Inr (rt, 99)"
    and gr: "generate_ranges (get_job_data_ui (ev_form ev)) (init_job_data s) =
      Inr (init_job_data s\<lparr>ss_job_data := Some (get_job_data_ui (ev_form ev)), ss_ranges := Some rt,
             ss_total_range := Some 99, ss_show_range := Some True,
             ss_simulations_ran := Some False\<rparr>)"
    by (rule generate_ranges_form)
  from assms gr have "main gen ev (s, g) =
      ((init_job_data s\<lparr>ss_job_data := Some (get_job_data_ui (ev_form ev)), ss_ranges := Some rt,
          ss_total_range := Some 99, ss_show_range := Some True,
          ss_simulations_ran := Some False\<rparr>, g),
       Inr \<lparr>pg_ranges = Some (map (\<lambda>(job, (start, end1)).
           job @ '': '' @ str_int start @ en_dash @ str_int end1) rt), pg_results = None\<rparr>)"
    by (simp add: main_def Let_def ranges_block_def range_lines_def shown_results_def)
  with c show ?thesis by (intro exI conjI) simp_all
qed

theorem generate_discards_results_witness:
  "\<exists>rt lines. create_ranges (get_job_data_ui default_form) = Inr (rt, 99) \<and>
    snd (main replay \<lparr>ev_form = default_form, ev_generate = True, ev_num_sim = 1,
      ev_jobs_per_sim = 2, ev_run = False\<rparr> (empty_session, [5, 60]))
      = Inr \<lparr>pg_ranges = Some lines, pg_results = None\<rparr>"
  using generate_discards_results [of "\<lparr>ev_form = default_form, ev_generate = True,
      ev_num_sim = 1, ev_jobs_per_sim = 2, ev_run = False\<rparr>" replay empty_session "[5, 60]"]
  by auto

text \<open>
  C16. Pressing \<^verbatim>\<open>Run Simulations\<close> when ranges are shown: the run calls
  \<^verbatim>\<open>run_simulations\<close> on the stored ranges and scale with the two parameters raised to
  at least 1, stores its four results, sets \<^verbatim>\<open>simulations_ran\<close>, keeps the generator
  state that the simulation left, and shows the ranges and the results.
\<close>

theorem run_shows_results:
  assumes "rng_ok gen" and "session_inv s" and "session_flag (ss_show_range s)"
    and "\<not> ev_generate ev" and "ev_run ev"
  shows "\<exists>rt sims probs cum details g' lines v.
    ss_ranges s = Some rt \<and>
    run_simulations gen rt 99 (max 1 (ev_num_sim ev)) (max 1 (ev_jobs_per_sim ev)) g
      = Inr ((sims, probs, cum, details), g') \<and>
    main gen ev (s, g) =
      ((init_job_data s\<lparr>ss_simulations := Some sims, ss_probabilities := Some probs,
          ss_cumulative_prob := Some cum, ss_simulation_details := Some details,
          ss_simulations_ran := Some True\<rparr>, g'),
       Inr \<lparr>pg_ranges = Some lines, pg_results = Some v\<rparr>)"
proof -
  let ?s1 = "init_job_data s"
  let ?ns = "max 1 (ev_num_sim ev)" and ?jp = "max 1 (ev_jobs_per_sim ev)"
  from assms(2,3) have inv: "session_inv ?s1" and flag: "session_flag (ss_show_range ?s1)"
    by simp_all
  then have ready: "ranges_ready ?s1" by (simp add: session_inv_def)
  then obtain rt where rt: "ss_ranges ?s1 = Some rt" "ss_total_range ?s1 = Some 99"
    by (auto simp: ranges_ready_def split: option.splits)
  from run_clicked_ok [OF assms(1) ready, of ?ns ?jp g]
  obtain s' g' where rc: "run_clicked gen ?ns ?jp (?s1, g) = Inr (s', g')"
    and s': "results_ready s'" "ss_simulations_ran s' = Some True"
      "ss_ranges s' = ss_ranges ?s1" "ss_total_range s' = ss_total_range ?s1"
      "ss_show_range s' = ss_show_range ?s1"
    by auto
  from rc rt obtain sims probs cum details where
    r: "run_simulations gen rt 99 ?ns ?jp g = Inr ((sims, probs, cum, details), g')"
    and s'_eq: "s' = ?s1\<lparr>ss_simulations := Some sims, ss_probabilities := Some probs,
          ss_cumulative_prob := Some cum, ss_simulation_details := Some details,
          ss_simulations_ran := Some True\<rparr>"
    by (auto simp: run_clicked_def res_bind_eq_Inr)
  from s' flag ready have "session_inv s'"
    by (simp add: session_inv_def ranges_ready_def)
  from results_step_ok [OF this] s'(2) obtain v where v: "shown_results s' = Inr (Some v)"
    by auto
  from assms(4,5) flag rt rc v s'(2) have "main gen ev (s, g) =
      ((s', g'), Inr \<lparr>pg_ranges = Some (map (\<lambda>(job, (start, end1)).
           job @ '': '' @ str_int start @ en_dash @ str_int end1) rt), pg_results = Some v\<rparr>)"
    by (simp add: main_def Let_def ranges_block_def range_lines_def number_input_def)
  with r rt s'_eq show ?thesis by auto
qed

theorem run_shows_results_witness:
  "\<exists>sims probs cum details g' lines v.
    run_simulations replay [(''A'', (1, 50)), (''B'', (51, 99))] 99 1 2 [5, 60]
      = Inr ((sims, probs, cum, details), g') \<and>
    snd (main replay \<lparr>ev_form = default_form, ev_generate = False, ev_num_sim = 1,
        ev_jobs_per_sim = 2, ev_run = True\<rparr>
      (empty_session\<lparr>ss_ranges := Some [(''A'', (1, 50)), (''B'', (51, 99))],
         ss_total_range := Some 99, ss_show_range := Some True\<rparr>, [5, 60]))
      = Inr \<lparr>pg_ranges = Some lines, pg_results = Some v\<rparr>"
proof -
  let ?s = "empty_session\<lparr>ss_ranges := Some [(''A'', (1, 50)), (''B'', (51, 99))],
         ss_total_range := Some 99, ss_show_range := Some True\<rparr>"
  have inv: "session_inv ?s"
    by (simp add: session_inv_def ranges_ready_def empty_session_def partitions_two_jobs)
  have flag: "session_flag (ss_show_range ?s)" by simp
  from run_shows_results [OF rng_ok_replay inv flag, of "\<lparr>ev_form = default_form,
      ev_generate = False, ev_num_sim = 1, ev_jobs_per_sim = 2, ev_run = True\<rparr>" "[5, 60]"]
  show ?thesis by (auto simp: empty_session_def)
qed

text \<open>
  C13. Results can always be had in two steps: in every reachable state, a run with
  \<^verbatim>\<open>Generate Ranges\<close> pressed followed by a run with \<^verbatim>\<open>Run Simulations\<close> pressed ends with
  a page that shows the ranges and the results, whatever the form and the parameters
  hold and whatever was stored before.
\<close>

theorem results_after_generate_and_run:
  assumes "rng_ok gen" and "reachable gen g0 sg" and "ev_generate e1" and "ev_run e2"
  shows "\<exists>pg. snd (main gen e2 (fst (main gen e1 sg))) = Inr pg \<and>
    pg_ranges pg \<noteq> None \<and> pg_results pg \<noteq> None"
proof -
  from main_outcome [OF assms(1) reachable_inv [OF assms(2,1)], of e1 "snd sg"] assms(3)
  obtain s1 g1 where m1: "fst (main gen e1 sg) = (s1, g1)" and inv: "session_inv s1"
    and show1: "session_flag (ss_show_range s1)" by auto
  from main_outcome [OF assms(1) inv, of e2 g1] show1 assms(4) m1 show ?thesis by auto
qed

theorem results_after_generate_and_run_witness:
  "rng_ok replay \<and> reachable replay [5, 60] (empty_session, [5, 60]) \<and>
   (\<exists>pg. snd (main replay \<lparr>ev_form = default_form, ev_generate = False, ev_num_sim = 1,
            ev_jobs_per_sim = 2, ev_run = True\<rparr>
          (fst (main replay \<lparr>ev_form = default_form, ev_generate = True, ev_num_sim = 1,
            ev_jobs_per_sim = 2, ev_run = False\<rparr> (empty_session, [5, 60])))) = Inr pg \<and>
      pg_ranges pg \<noteq> None \<and> pg_results pg \<noteq> None)"
  using results_after_generate_and_run [OF rng_ok_replay reachable.fresh [of replay "[5, 60]"],
      of "\<lparr>ev_form = default_form, ev_generate = True, ev_num_sim = 1,
            ev_jobs_per_sim = 2, ev_run = False\<rparr>"
         "\<lparr>ev_form = default_form, ev_generate = False, ev_num_sim = 1,
            ev_jobs_per_sim = 2, ev_run = True\<rparr>"]
    rng_ok_replay reachable.fresh [of replay "[5, 60]"] by simp

text \<open>
  C24. A run without a button pressed repeats the page: in every reachable state, after
  any run, a further run in which neither button is pressed leaves the session state
  and the generator as they are and shows the same page again, whatever the form and
  the parameters hold. The page is a function of the session state.
\<close>

theorem idle_rerun_repeats:
  assumes "rng_ok gen" and "reachable gen g0 sg" and "\<not> ev_generate e2" and "\<not> ev_run e2"
  shows "main gen e2 (fst (main gen e1 sg)) = main gen e1 sg"
proof -
  from main_outcome [OF assms(1) reachable_inv [OF assms(2,1)], of e1 "snd sg"]
  obtain s' g' pg where m: "main gen e1 sg = ((s', g'), Inr pg)"
    and r: "render s' = Inr pg" and j: "ss_job_data s' \<noteq> None" by auto
  from main_idle [OF assms(3,4), of gen s' g'] r j m show ?thesis
    by (simp add: init_job_data_idem)
qed

theorem idle_rerun_repeats_witness:
  "rng_ok replay \<and> reachable replay [5, 60] (empty_session, [5, 60]) \<and>
   main replay \<lparr>ev_form = default_form, ev_generate = False, ev_num_sim = 7,
       ev_jobs_per_sim = 2, ev_run = False\<rparr>
     (fst (main replay \<lparr>ev_form = default_form, ev_generate = True, ev_num_sim = 1,
       ev_jobs_per_sim = 2, ev_run = True\<rparr> (empty_session, [5, 60])))
   = main replay \<lparr>ev_form = default_form, ev_generate = True, ev_num_sim = 1,
       ev_jobs_per_sim = 2, ev_run = True\<rparr> (empty_session, [5, 60])"
  using idle_rerun_repeats [OF rng_ok_replay reachable.fresh [of replay "[5, 60]"],
      of "\<lparr>ev_form = default_form, ev_generate = False, ev_num_sim = 7,
            ev_jobs_per_sim = 2, ev_run = False\<rparr>"
         "\<lparr>ev_form = default_form, ev_generate = True, ev_num_sim = 1,
            ev_jobs_per_sim = 2, ev_run = True\<rparr>"]
    rng_ok_replay reachable.fresh [of replay "[5, 60]"] by simp

text \<open>
  C35. The first use of the application: in a fresh session, with the form as it is
  first shown (three jobs of frequency 10), pressing \<^verbatim>\<open>Generate Ranges\<close> stores the
  table \<^verbatim>\<open>J1\<close>, \<^verbatim>\<open>J2\<close>, \<^verbatim>\<open>J3\<close> and the ranges 1 to 33, 34 to 66 and 67 to 99, and
  shows them as three lines and no results.
\<close>

theorem first_generate_scenario:
  "main gen \<lparr>ev_form = default_form, ev_generate = True, ev_num_sim = 50,
       ev_jobs_per_sim = 29, ev_run = False\<rparr> (empty_session, g) =
     ((empty_session\<lparr>ss_job_data := Some [(''J1'', 10), (''J2'', 10), (''J3'', 10)],
         ss_ranges := Some [(''J1'', (1, 33)), (''J2'', (34, 66)), (''J3'', (67, 99))],
         ss_total_range := Some 99, ss_show_range := Some True,
         ss_simulations_ran := Some False\<rparr>, g),
      Inr \<lparr>pg_ranges = Some [''J1: 1'' @ en_dash @ ''33'', ''J2: 34'' @ en_dash @ ''66'',
                ''J3: 67'' @ en_dash @ ''99''],
           pg_results = None\<rparr>)"
proof -
  have "str_int 33 = ''33''" "str_int 34 = ''34''" "str_int 66 = ''66''" "str_int 67 = ''67''"
    by (simp_all add: str_eval)
  then show ?thesis
    using create_ranges_default_form
    by (simp add: main_def Let_def generate_ranges_def ranges_block_def range_lines_def
        shown_results_def init_job_data_def empty_session_def default_form_table str_int_evals)
qed

end
