(* ===== verification/Runner_Bounds.thy ===== *)
theory Runner_Bounds
  imports Draw_Machine
begin

text \<open>
  Bounds on the floats that \<^verbatim>\<open>run_simulations\<close> returns. The probabilities are shares of
  the number of draws, rounded once; the cumulative probabilities are float sums of
  such shares. \<open>fsum\<close> is the float sum on the rationals that the finite doubles denote,
  \<open>shares\<close> the exact shares of the jobs of a history, and \<open>sum_bound\<close> the error that the
  roundings of a sum of \<open>n\<close> shares can add up to.
\<close>

section \<open>Definitions\<close>

definition fsum :: "rat \<Rightarrow> rat list \<Rightarrow> rat" where
  "fsum = foldl (\<lambda>a q. fl64 (a + q))"

definition shares :: "'k list \<Rightarrow> int \<Rightarrow> 'k list \<Rightarrow> rat list" where
  "shares ks total_draws jobs = map (\<lambda>k. of_nat (count_list jobs k) / of_int total_draws) ks"

definition sum_bound :: "nat \<Rightarrow> rat" where
  "sum_bound n = 3 * of_nat n / 2 ^ 54"

text \<open>The running sums that \<^verbatim>\<open>cumulative_prob\<close> holds (lines 62 to 66), as a recursion.\<close>

fun prefix_sums :: "pyfloat \<Rightarrow> ('k, pyfloat) dict \<Rightarrow> ('k, pyfloat) dict" where
  "prefix_sums a [] = []"
| "prefix_sums a ((k, p) # ps) = (k, float_add a p) # prefix_sums (float_add a p) ps"

section \<open>Float sums\<close>

lemma fsum_simps [simp]:
  "fsum a [] = a" "fsum a (q # qs) = fsum (fl64 (a + q)) qs"
  "fsum a (qs @ [q]) = fl64 (fsum a qs + q)"
  by (simp_all add: fsum_def)

lemma fsum_mono:
  assumes "list_all2 (\<le>) xs ys" and "a \<le> b"
  shows "fsum a xs \<le> fsum b ys"
  using assms
  by (induction arbitrary: a b rule: list_all2_induct) (simp_all add: fl64_mono add_mono)

lemma sum_bound_Suc: "sum_bound (Suc n) = sum_bound n + 1 / 2 ^ 54 + 1 / 2 ^ 53"
  by (simp add: sum_bound_def field_simps)

lemma sum_bound_small: "n \<le> 2 ^ 50 \<Longrightarrow> sum_bound n \<le> 3 / 16"
proof -
  assume "n \<le> 2 ^ 50"
  then have "(of_nat n :: rat) \<le> of_nat (2 ^ 50)" by (simp only: of_nat_le_iff)
  then show ?thesis by (simp add: sum_bound_def)
qed

text \<open>One more share added to a float sum of shares.\<close>

lemma fsum_step:
  assumes "0 \<le> s" and "\<bar>s - S\<bar> \<le> sum_bound n" and "n \<le> 2 ^ 50"
    and "0 \<le> q" and "q \<le> 1" and "S + q \<le> 1"
  shows "to_float (s + fl64 q) = Fin (fl64 (s + fl64 q))"
    and "0 \<le> fl64 (s + fl64 q)"
    and "\<bar>fl64 (s + fl64 q) - (S + q)\<bar> \<le> sum_bound (Suc n)"
proof -
  let ?y = "s + fl64 q"
  from assms(4,5) have eq: "\<bar>fl64 q - q\<bar> \<le> 1 / 2 ^ 54" by (rule fl64_share_error)
  with assms(2) have ey: "\<bar>?y - (S + q)\<bar> \<le> sum_bound n + 1 / 2 ^ 54" by linarith
  from assms(1,4) have nn: "0 \<le> ?y" by (simp add: fl64_nonneg)
  have "(1::rat) / 2 ^ 54 \<le> 1 / 16" by simp
  with ey assms(6) sum_bound_small [OF assms(3)] have "?y < 2" by linarith
  with nn have "\<bar>?y\<bar> < 2" by simp
  note r = fl64_error_below_2 [OF this]
  from r(2) show "to_float ?y = Fin (fl64 ?y)" .
  from nn show "0 \<le> fl64 ?y" by (rule fl64_nonneg)
  from r(1) ey show "\<bar>fl64 ?y - (S + q)\<bar> \<le> sum_bound (Suc n)"
    unfolding sum_bound_Suc by linarith
qed

text \<open>
  The float sum of the rounded shares of a whole: it is finite, not negative, and off
  the exact sum by at most \<open>sum_bound\<close> of the number of shares.
\<close>

lemma fsum_shares:
  assumes "\<forall>q \<in> set qs. 0 \<le> q" and "sum_list qs \<le> 1" and "length qs \<le> 2 ^ 50"
  shows "foldl float_add (Fin 0) (map (\<lambda>q. Fin (fl64 q)) qs) = Fin (fsum 0 (map fl64 qs)) \<and>
    0 \<le> fsum 0 (map fl64 qs) \<and>
    \<bar>fsum 0 (map fl64 qs) - sum_list qs\<bar> \<le> sum_bound (length qs)"
  using assms
proof (induction qs rule: rev_induct)
  case Nil
  show ?case by (simp add: sum_bound_def)
next
  case (snoc q qs)
  from snoc.prems(1) have nn: "\<forall>x \<in> set qs. 0 \<le> x" and q: "0 \<le> q" by simp_all
  from nn have S: "0 \<le> sum_list qs" by (simp add: sum_list_nonneg)
  with snoc.prems(2) q have le: "sum_list qs \<le> 1" "q \<le> 1" "sum_list qs + q \<le> 1" by simp_all
  from snoc.prems(3) have n: "length qs \<le> 2 ^ 50" by simp
  from snoc.IH [OF nn le(1) n]
  have f: "foldl float_add (Fin 0) (map (\<lambda>q. Fin (fl64 q)) qs) = Fin (fsum 0 (map fl64 qs))"
    and s: "0 \<le> fsum 0 (map fl64 qs)"
      "\<bar>fsum 0 (map fl64 qs) - sum_list qs\<bar> \<le> sum_bound (length qs)"
    by simp_all
  from fsum_step [OF s n q le(2,3)] f show ?case by simp
qed

section \<open>The shares of the jobs of a history\<close>

lemma cum_spec_shares:
  "cum_spec ks T jobs = foldl float_add (Fin 0) (map (\<lambda>q. Fin (fl64 q)) (shares ks T jobs))"
  by (simp add: cum_spec_def shares_def comp_def)

lemma length_shares [simp]: "length (shares ks T jobs) = length ks"
  by (simp add: shares_def)

lemma shares_nonneg: "0 < T \<Longrightarrow> \<forall>q \<in> set (shares ks T jobs). 0 \<le> q"
  by (auto simp: shares_def)

lemma share_unit:
  assumes "0 < T" and "int c \<le> T"
  shows "0 \<le> (of_nat c :: rat) / of_int T" and "(of_nat c :: rat) / of_int T \<le> 1"
proof -
  from assms(1) show "0 \<le> (of_nat c :: rat) / of_int T" by simp
  from assms(2) have "(of_int (int c) :: rat) \<le> of_int T" by (simp only: of_int_le_iff)
  with assms(1) show "(of_nat c :: rat) / of_int T \<le> 1" by (simp add: divide_le_eq_1)
qed

lemma share_whole:
  assumes "0 < T" and "int c = T"
  shows "(of_nat c :: rat) / of_int T = 1"
proof -
  from assms(2) have "(of_nat c :: rat) = of_int T" by (metis of_int_of_nat_eq)
  with assms(1) show ?thesis by simp
qed

lemma sum_list_shares:
  assumes "distinct ks" and "set jobs \<subseteq> set ks"
  shows "sum_list (shares ks T jobs) = of_nat (length jobs) / of_int T"
proof -
  have "sum_list (shares ks T jobs) = of_int (sum_list (vals (tally ks jobs))) / of_int T"
    by (induction ks) (simp_all add: shares_def tally_Cons add_divide_distrib)
  with sum_list_tally [OF assms] show ?thesis by simp
qed

lemma count_list_take_mono:
  assumes "i \<le> j"
  shows "count_list (take i xs) k \<le> count_list (take j xs) k"
proof -
  from assms have "take j xs = take i xs @ drop i (take j xs)"
    by (metis append_take_drop_id min.absorb1 take_take)
  then have "count_list (take j xs) k = count_list (take i xs) k + count_list (drop i (take j xs)) k"
    by (metis count_list_append)
  then show ?thesis by simp
qed

lemma shares_take_mono:
  assumes "i \<le> j" and "0 < T"
  shows "list_all2 (\<le>) (map fl64 (shares ks T (take i jobs))) (map fl64 (shares ks T (take j jobs)))"
  using count_list_take_mono [OF assms(1), of jobs] assms(2)
  by (auto simp: shares_def list_all2_conv_all_nth intro!: fl64_mono divide_right_mono)

text \<open>
  The cumulative probability of the machine after some of the draws: a finite float,
  off the share of the draws made by at most \<open>sum_bound\<close> of the number of jobs.
\<close>

lemma cum_spec_bound:
  assumes "distinct ks" and "set jobs \<subseteq> set ks" and "0 < T" and "int (length jobs) \<le> T"
    and "length ks \<le> 2 ^ 50"
  shows "cum_spec ks T jobs = Fin (fsum 0 (map fl64 (shares ks T jobs)))"
    and "\<bar>fsum 0 (map fl64 (shares ks T jobs)) - of_nat (length jobs) / of_int T\<bar>
      \<le> sum_bound (length ks)"
proof -
  from share_unit(2) [OF assms(3,4)] have "sum_list (shares ks T jobs) \<le> 1"
    by (simp add: sum_list_shares [OF assms(1,2)])
  from fsum_shares [OF shares_nonneg [OF assms(3)] this] assms(5)
  show "cum_spec ks T jobs = Fin (fsum 0 (map fl64 (shares ks T jobs)))"
    and "\<bar>fsum 0 (map fl64 (shares ks T jobs)) - of_nat (length jobs) / of_int T\<bar>
      \<le> sum_bound (length ks)"
    by (simp_all add: cum_spec_shares sum_list_shares [OF assms(1,2)])
qed

section \<open>The history of a run\<close>

lemma run_simulations_history:
  assumes "is_dict ranges"
    and "run_simulations gen ranges tr ns jp g = Inr ((sims, probs, cum, details), g')"
  shows "hist_ok ranges (ns * jp) (concat details)"
    and "set (jobs_of (concat details)) \<subseteq> set (keys ranges)"
    and "concat sims = jobs_of (concat details)"
    and "length (concat details) = nat ns * nat jp"
    and "i < length (concat details) \<Longrightarrow>
      0 < ns * jp \<and> int (length (concat details)) = ns * jp"
proof -
  note m = run_simulations_machine [OF assms]
  from m(4) show "hist_ok ranges (ns * jp) (concat details)" .
  have "fst (snd r) \<in> set (keys ranges)" if "r \<in> set (concat details)" for r
    using m(4) that by (rule hist_ok_job_keys)
  then show "set (jobs_of (concat details)) \<subseteq> set (keys ranges)"
    unfolding jobs_of_def set_map by blast
  from m(2) show "concat sims = jobs_of (concat details)" by (simp add: jobs_of_concat)
  from length_concat_uniform [OF m(6)] m(5)
  show len: "length (concat details) = nat ns * nat jp" by simp
  assume "i < length (concat details)"
  with len have "0 < ns" and "0 < jp"
    by (cases "0 < ns"; cases "0 < jp"; simp)+
  with len show "0 < ns * jp \<and> int (length (concat details)) = ns * jp"
    by (simp add: nat_mult_distrib)
qed

text \<open>The cumulative probability recorded with a draw of a run.\<close>

lemma recorded_cumulative:
  assumes "is_dict ranges" and "length ranges \<le> 2 ^ 50"
    and "run_simulations gen ranges tr ns jp g = Inr ((sims, probs, cum, details), g')"
    and "i < length (concat details)"
  shows "snd (snd (concat details ! i)) =
      Fin (fsum 0 (map fl64 (shares (keys ranges) (ns * jp) (take (Suc i) (jobs_of (concat details))))))"
    and "\<bar>fsum 0 (map fl64 (shares (keys ranges) (ns * jp) (take (Suc i) (jobs_of (concat details)))))
        - of_nat (Suc i) / of_int (ns * jp)\<bar> \<le> sum_bound (length ranges)"
    and "0 < ns * jp"
proof -
  let ?h = "concat details" and ?T = "ns * jp"
  let ?jobs = "take (Suc i) (jobs_of ?h)"
  note h = run_simulations_history [OF assms(1,3)]
  from h(5) [OF assms(4)] show T: "0 < ?T" by simp
  from assms(4) have len: "length ?jobs = Suc i" by (simp add: jobs_of_def)
  with h(5) [OF assms(4)] assms(4) have le: "int (length ?jobs) \<le> ?T" by simp
  from h(2) have sub: "set ?jobs \<subseteq> set (keys ranges)"
    by (meson set_take_subset subset_trans)
  from assms(2) have n: "length (keys ranges) \<le> 2 ^ 50" by simp
  note b = cum_spec_bound [OF assms(1) sub T le n]
  from hist_okD(2) [OF h(1) assms(4)] b(1)
  show "snd (snd (?h ! i)) = Fin (fsum 0 (map fl64 (shares (keys ranges) ?T ?jobs)))" by simp
  from b(2) len
  show "\<bar>fsum 0 (map fl64 (shares (keys ranges) ?T ?jobs)) - of_nat (Suc i) / of_int ?T\<bar>
      \<le> sum_bound (length ranges)" by simp
qed

section \<open>The running sums of the probabilities\<close>

lemma cumulative_fold:
  assumes "distinct (keys ps)" and "set (keys ps) \<inter> set (keys d) = {}"
  shows "fold (\<lambda>(job, prob) (d, cumulative_sum).
                let cumulative_sum' = float_add cumulative_sum prob
                in (dict_set job cumulative_sum' d, cumulative_sum')) ps (d, a)
         = (d @ prefix_sums a ps, foldl float_add a (vals ps))"
  using assms
proof (induction ps arbitrary: d a)
  case Nil
  show ?case by simp
next
  case (Cons kp ps)
  obtain k p where kp: "kp = (k, p)" by (cases kp)
  from Cons.prems kp have k: "dict_set k (float_add a p) d = d @ [(k, float_add a p)]"
    by (intro dict_set_fresh) auto
  from Cons.prems kp have "distinct (keys ps)"
    and "set (keys ps) \<inter> set (keys (d @ [(k, float_add a p)])) = {}" by auto
  from Cons.IH [OF this, of "float_add a p"] kp k show ?case by (simp add: Let_def)
qed

lemma cumulative_of_prefix_sums: "is_dict ps \<Longrightarrow> cumulative_of ps = prefix_sums (Fin 0) ps"
  using cumulative_fold [of ps "[]" "Fin 0"] by (simp add: cumulative_of_def)

lemma keys_prefix_sums [simp]: "keys (prefix_sums a ps) = keys ps"
  by (induction a ps rule: prefix_sums.induct) simp_all

lemma last_prefix_sums:
  "ps \<noteq> [] \<Longrightarrow> snd (last (prefix_sums a ps)) = foldl float_add a (vals ps)"
proof (induction a ps rule: prefix_sums.induct)
  case (2 a k p ps)
  then show ?case by (cases ps) auto
qed simp

text \<open>A probability of a run is the rounded share of a job, between 0 and 1.\<close>

lemma history_share_unit:
  assumes "is_dict ranges"
    and "run_simulations gen ranges tr ns jp g = Inr ((sims, probs, cum, details), g')"
  shows "fin_between 0 1 (Fin (fl64 (of_nat (count_list (concat sims) k) / of_int (ns * jp))))"
proof (cases "concat details")
  case Nil
  with run_simulations_history(3) [OF assms] have "concat sims = []"
    by (simp only: jobs_of_def list.map)
  then have "count_list (concat sims) k = 0" by (simp only: count_list.simps)
  then show ?thesis by simp
next
  case (Cons r rs)
  then have "0 < length (concat details)" by simp
  from run_simulations_history(5) [OF assms this]
  have T: "0 < ns * jp" "int (length (concat details)) = ns * jp" by simp_all
  have "count_list (concat sims) k \<le> length (concat sims)" by (rule count_le_length)
  also from run_simulations_history(3) [OF assms]
  have "length (concat sims) = length (concat details)" by (simp add: jobs_of_def)
  finally have "int (count_list (concat sims) k) \<le> ns * jp" using T(2) by simp
  from share_unit [OF T(1) this] show ?thesis
    by (simp only: fin_between.simps fl64_nonneg fl64_le_1 simp_thms)
qed

text \<open>The two computations of the cumulative probability meet at the end of a run.\<close>

lemma final_cumulative:
  assumes "is_dict ranges"
    and "run_simulations gen ranges tr ns jp g = Inr ((sims, probs, cum, details), g')"
    and "concat details \<noteq> []"
  shows "snd (snd (last (concat details))) = foldl float_add (Fin 0) (vals probs)"
    and "snd (last cum) = foldl float_add (Fin 0) (vals probs)"
proof -
  let ?h = "concat details"
  note m = run_simulations_machine [OF assms(1,2)] and h = run_simulations_history [OF assms(1,2)]
  from assms(3) have i: "length ?h - 1 < length ?h" by simp
  from hist_okD(2) [OF h(1) i] assms(3)
  have "snd (snd (last ?h)) = cum_spec (keys ranges) (ns * jp) (jobs_of ?h)"
    by (simp add: last_conv_nth jobs_of_def)
  also from m(3) h(3) have "\<dots> = foldl float_add (Fin 0) (vals probs)"
    by (simp add: cum_spec_def comp_def)
  finally show "snd (snd (last ?h)) = foldl float_add (Fin 0) (vals probs)" .
  from assms(3) h(2) have "keys ranges \<noteq> []" by (auto simp: jobs_of_def)
  with m(3) have ne: "probs \<noteq> []" and d: "is_dict probs"
    using assms(1) by (simp_all add: comp_def)
  from run_simulations_cum [OF assms(2)] d have "cum = prefix_sums (Fin 0) probs"
    by (simp add: cumulative_of_prefix_sums)
  with last_prefix_sums [OF ne] show "snd (last cum) = foldl float_add (Fin 0) (vals probs)"
    by simp
qed

lemma sum_bound_tolerance: "n \<le> 1000000 \<Longrightarrow> sum_bound n \<le> 1 / 10 ^ 9"
proof -
  assume "n \<le> 1000000"
  then have "(of_nat n :: rat) \<le> of_nat 1000000" by (simp only: of_nat_le_iff)
  then show ?thesis by (simp add: sum_bound_def)
qed

lemma two_jobs_small: "length [(''A'', (1::int, 50::int)), (''B'', (51, 99))] \<le> 2 ^ 50"
  by simp

section \<open>Properties of the returned floats\<close>

text \<open>
  C22. Every probability that \<^verbatim>\<open>run_simulations\<close> returns is a finite float between 0
  and 1, one per job of the range table in table order: no division overflows, and no
  infinity or NaN is returned.
\<close>

theorem probabilities_in_unit_interval:
  assumes "is_dict ranges"
    and "run_simulations gen ranges tr ns jp g = Inr ((sims, probs, cum, details), g')"
  shows "keys probs = keys ranges \<and> list_all (fin_between 0 1) (vals probs)"
  using run_simulations_machine(3) [OF assms] history_share_unit [OF assms]
  by (simp add: list_all_iff comp_def)

theorem probabilities_in_unit_interval_witness:
  "is_dict [(''A'', (1::int, 50::int)), (''B'', (51, 99))] \<and>
   keys [(''A'', Fin (1 / 2)), (''B'', Fin (1 / 2))] = keys [(''A'', (1::int, 50::int)), (''B'', (51, 99))] \<and>
   list_all (fin_between 0 1) (vals [(''A'', Fin (1 / 2)), (''B'', Fin (1 / 2))])"
  using probabilities_in_unit_interval [OF two_jobs_dict run_simulations_two_draws] by simp

text \<open>
  C23. The cumulative probability recorded with a draw is the share of the draws made so
  far, up to rounding: on a table of at most \<open>2\<^sup>5\<^sup>0\<close> jobs, the value recorded with draw
  number \<open>i + 1\<close> of the run is a finite float that differs from
  \<open>(i + 1) / (num_simulations * jobs_per_simulation)\<close> by at most \<open>3 n / 2\<^sup>5\<^sup>4\<close> for \<open>n\<close> jobs.
  With the last draw it is 1 within that bound.
\<close>

theorem cumulative_tracks_draws:
  assumes "is_dict ranges" and "length ranges \<le> 2 ^ 50"
    and "run_simulations gen ranges tr ns jp g = Inr ((sims, probs, cum, details), g')"
    and "i < length (concat details)"
  shows "\<exists>c. snd (snd (concat details ! i)) = Fin c \<and>
    \<bar>c - of_nat (Suc i) / of_int (ns * jp)\<bar> \<le> sum_bound (length ranges)"
  using recorded_cumulative(1,2) [OF assms] by blast

theorem cumulative_tracks_draws_witness:
  "\<exists>c. snd (snd (concat [[(5, ''A'', Fin (1 / 2)), (60, ''B'', Fin 1)]] ! 1)) = Fin c \<and>
     \<bar>c - of_nat (Suc 1) / of_int (1 * 2)\<bar>
       \<le> sum_bound (length [(''A'', (1::int, 50::int)), (''B'', (51, 99))])"
  using cumulative_tracks_draws [OF two_jobs_dict two_jobs_small run_simulations_two_draws, of 1]
  by simp

text \<open>
  C25. The cumulative probabilities recorded with the draws of a run never decrease from
  one draw to a later one, across the simulations of the run (on a table of at most
  \<open>2\<^sup>5\<^sup>0\<close> jobs).
\<close>

theorem running_cumulative_monotone:
  assumes "is_dict ranges" and "length ranges \<le> 2 ^ 50"
    and "run_simulations gen ranges tr ns jp g = Inr ((sims, probs, cum, details), g')"
    and "i \<le> j" and "j < length (concat details)"
  shows "float_le (snd (snd (concat details ! i))) (snd (snd (concat details ! j)))"
proof -
  from assms(4,5) have i: "i < length (concat details)" by simp
  note ri = recorded_cumulative [OF assms(1-3) i]
    and rj = recorded_cumulative [OF assms(1-3,5)]
  from assms(4) have "Suc i \<le> Suc j" by simp
  from fsum_mono [OF shares_take_mono [OF this ri(3)] order_refl] ri(1) rj(1)
  show ?thesis by simp
qed

theorem running_cumulative_monotone_witness:
  "float_le (snd (snd (concat [[(5, ''A'', Fin (1 / 2)), (60, ''B'', Fin 1)]] ! 0)))
     (snd (snd (concat [[(5, ''A'', Fin (1 / 2)), (60, ''B'', Fin 1)]] ! 1)))"
  using running_cumulative_monotone [OF two_jobs_dict two_jobs_small run_simulations_two_draws,
      of 0 1]
  by simp

text \<open>
  C11. Normalisation of the probabilities: when a run on a table of at most a million
  jobs has made at least one draw, the float sum of the returned probabilities, the
  last entry of the returned \<^verbatim>\<open>cumulative_prob\<close> (the running sum of lines 62 to 66) and
  the value recorded with the last draw (the sum of line 55) are one and the same
  finite float, and it is 1 within \<open>3 n / 2\<^sup>5\<^sup>4\<close> for \<open>n\<close> jobs, which is less than \<open>10\<^sup>-\<^sup>9\<close>.
\<close>

theorem probability_normalisation:
  assumes "is_dict ranges" and "length ranges \<le> 1000000"
    and "run_simulations gen ranges tr ns jp g = Inr ((sims, probs, cum, details), g')"
    and "concat details \<noteq> []"
  shows "\<exists>c. foldl float_add (Fin 0) (vals probs) = Fin c \<and> snd (last cum) = Fin c \<and>
    snd (snd (last (concat details))) = Fin c \<and>
    \<bar>c - 1\<bar> \<le> sum_bound (length ranges) \<and> sum_bound (length ranges) \<le> 1 / 10 ^ 9"
proof -
  let ?h = "concat details"
  let ?c = "fsum 0 (map fl64 (shares (keys ranges) (ns * jp)
    (take (Suc (length ?h - 1)) (jobs_of ?h))))"
  from assms(2) have n: "length ranges \<le> 2 ^ 50" by simp
  from assms(4) have i: "length ?h - 1 < length ?h" by simp
  note r = recorded_cumulative [OF assms(1) n assms(3) i]
    and f = final_cumulative [OF assms(1,3,4)]
  from i have "Suc (length ?h - 1) = length ?h" by simp
  with run_simulations_history(5) [OF assms(1,3) i]
  have "(of_nat (Suc (length ?h - 1)) :: rat) / of_int (ns * jp) = 1"
    by (intro share_whole) simp_all
  with r(2) have e: "\<bar>?c - 1\<bar> \<le> sum_bound (length ranges)" by (simp only:)
  from r(1) last_conv_nth [OF assms(4)] have l: "snd (snd (last ?h)) = Fin ?c" by (simp only:)
  with f have "foldl float_add (Fin 0) (vals probs) = Fin ?c" and "snd (last cum) = Fin ?c"
    by (simp_all only:)
  with l e sum_bound_tolerance [OF assms(2)] show ?thesis by blast
qed

theorem probability_normalisation_witness:
  "\<exists>c. foldl float_add (Fin 0) (vals [(''A'', Fin (1 / 2)), (''B'', Fin (1 / 2))]) = Fin c \<and>
     snd (last [(''A'', Fin (1 / 2)), (''B'', Fin 1)]) = Fin c \<and>
     snd (snd (last (concat [[(5 :: int, ''A'', Fin (1 / 2)), (60, ''B'', Fin 1)]]))) = Fin c \<and>
     \<bar>c - 1\<bar> \<le> sum_bound (length [(''A'', (1::int, 50::int)), (''B'', (51, 99))]) \<and>
     sum_bound (length [(''A'', (1::int, 50::int)), (''B'', (51, 99))]) \<le> 1 / 10 ^ 9"
  using probability_normalisation [OF two_jobs_dict _ run_simulations_two_draws]
  by simp

end
