(* ===== verification/Range_Sizes.thy ===== *)
theory Range_Sizes
  imports Range_Allocator
begin

text \<open>
  The sizes of the ranges that \<^verbatim>\<open>create_ranges\<close> returns. A range that ends before 99 was
  neither cut by the clamp of lines 25 and 26 nor stretched by the overwrite of line 31,
  so it has the size that lines 22 and 23 compute, and that size is the job's share
  of 99 up to the rounding to an integer and the two float roundings before it.
\<close>

section \<open>Definitions\<close>

text \<open>
  An entry of the range table next to the entry of the frequency table it was made
  from: the same job, and the computed size unless the range ends at 99.
\<close>

definition sized :: "int \<Rightarrow> 'k \<times> int \<Rightarrow> 'k \<times> span \<Rightarrow> bool" where
  "sized T jf ent \<longleftrightarrow>
     fst ent = fst jf \<and>
     (snd (snd ent) < 99 \<longrightarrow> range_size (snd jf) T = Inr (snd (snd ent) - fst (snd ent) + 1))"

section \<open>The size that lines 22 and 23 compute\<close>

lemma range_size_error:
  assumes "0 \<le> f" and "f \<le> T" and "0 < T" and "range_size f T = Inr n"
  shows "\<bar>(of_int n :: rat) - 99 * of_int f / of_int T\<bar> \<le> 1 / 2 + 1 / 2 ^ 46"
proof -
  let ?q = "of_int f / of_int T :: rat"
  let ?p = "fl64 ?q"
  let ?y = "fl64 (?p * 99)"
  note share = int_truediv_share [OF assms(1-3)]
  from assms(1-3) have q: "0 \<le> ?q" "?q \<le> 1" by (simp_all add: divide_le_eq_1)
  from q have e1: "\<bar>?p - ?q\<bar> \<le> 1 / 2 ^ 54" by (rule fl64_share_error)
  from share(2,3) have "\<bar>?p * 99\<bar> < 2 powi 7" by simp
  from fl64_error_below [OF this] have e2: "\<bar>?y - ?p * 99\<bar> \<le> 1 / 2 ^ 47"
    by (simp add: power_int_minus divide_simps)
  from range_size_share(1) [OF assms(1-3)] assms(4) have n: "n = round_half_even ?y" by simp
  from rhe_lower [of ?y] rhe_upper [of ?y] have e3: "\<bar>of_int n - ?y\<bar> \<le> 1 / 2"
    unfolding n by linarith
  have "(99::rat) / 2 ^ 54 + 1 / 2 ^ 47 \<le> 1 / 2 ^ 46" by simp
  with e1 e2 e3 have "\<bar>of_int n - 99 * ?q\<bar> \<le> 1 / 2 + 1 / 2 ^ 46" by linarith
  then show ?thesis by simp
qed

section \<open>The loop\<close>

lemma alloc_step_sized:
  assumes "alloc_step T s (job, f) = Inr s'" and "job \<notin> set (keys (as_ranges s))"
  shows "\<exists>ent. as_ranges s' = as_ranges s @ [ent] \<and> sized T (job, f) ent"
proof -
  from assms(1) obtain n where n: "range_size f T = Inr n"
    and s': "s' = \<lparr>as_ranges = dict_set job (as_start s,
                 if as_start s + n - 1 > 99 then 99 else as_start s + n - 1) (as_ranges s),
               as_start = (if as_start s + n - 1 > 99 then 99 else as_start s + n - 1) + 1\<rparr>"
    by (auto simp: alloc_step_def res_bind_eq_Inr Let_def)
  let ?ent = "(job, (as_start s, if as_start s + n - 1 > 99 then 99 else as_start s + n - 1))"
  from assms(2) s' have "as_ranges s' = as_ranges s @ [?ent]" by (simp add: dict_set_fresh)
  moreover from n have "sized T (job, f) ?ent" by (simp add: sized_def)
  ultimately show ?thesis by blast
qed

lemma alloc_loop_sized:
  assumes "res_fold (alloc_step T) s jd = Inr s'" and "distinct (keys (as_ranges s) @ keys jd)"
  shows "\<exists>new. as_ranges s' = as_ranges s @ new \<and> list_all2 (sized T) jd new"
  using assms
proof (induction jd arbitrary: s)
  case Nil
  then show ?case by simp
next
  case (Cons jf jd)
  obtain job f where jf: "jf = (job, f)" by (cases jf)
  from Cons.prems(1) jf obtain s1 where s1: "alloc_step T s (job, f) = Inr s1"
    and rest: "res_fold (alloc_step T) s1 jd = Inr s'"
    by (auto simp: res_bind_eq_Inr)
  from Cons.prems(2) jf have "job \<notin> set (keys (as_ranges s))" by simp
  from alloc_step_sized [OF s1 this] obtain ent where
    ent: "as_ranges s1 = as_ranges s @ [ent]" "sized T (job, f) ent" by blast
  from ent(2) have "fst ent = job" by (simp add: sized_def)
  with Cons.prems(2) jf ent(1) have "distinct (keys (as_ranges s1) @ keys jd)" by auto
  from Cons.IH [OF rest this] obtain new where
    "as_ranges s' = as_ranges s1 @ new" "list_all2 (sized T) jd new" by blast
  with ent jf show ?case by (intro exI [of _ "ent # new"]) simp
qed

section \<open>The whole function\<close>

lemma create_ranges_sized:
  assumes "is_dict jd" and "create_ranges jd = Inr (rt, tr)"
    and "i < length jd" and "snd (snd (rt ! i)) < 99"
  shows "sized (sum_list (vals jd)) (jd ! i) (rt ! i)"
proof -
  let ?T = "sum_list (vals jd)"
  from create_ranges_Inr_shape [OF assms(2)] obtain s xs k a b where
    loop: "res_fold (alloc_step ?T) \<lparr>as_ranges = [], as_start = 1\<rparr> jd = Inr s"
    and rs: "as_ranges s = xs @ [(k, (a, b))]" and rt: "rt = xs @ [(k, (a, 99))]" by blast
  from alloc_loop_sized [OF loop] assms(1) rs
  have all: "list_all2 (sized ?T) jd (xs @ [(k, (a, b))])" by simp
  then have len: "length jd = Suc (length xs)" by (auto dest: list_all2_lengthD)
  from assms(4) rt have "i \<noteq> length xs" by auto
  with assms(3) len have i: "i < length xs" by simp
  from list_all2_nthD [OF all assms(3)] i rt show ?thesis by (simp add: nth_append)
qed

lemma two_jobs_first_end: "snd (snd ([(''A'', (1::int, 50::int)), (''B'', (51, 99))] ! 0)) < 99"
  by simp

section \<open>Property of the sizes\<close>

text \<open>
  C18. Ranges are proportional to frequencies: on a valid frequency table, every
  returned range that ends before 99 belongs to the job at the same position of the
  frequency table, has the size that \<^verbatim>\<open>round(freq / total_frequency * 99)\<close> gives, and
  that size differs from the job's share \<open>99 * freq / total\<close> of the scale by at most one
  half and the float rounding error \<open>2\<^sup>-\<^sup>4\<^sup>6\<close>. Ranges that end at 99 are exempt: they are
  cut by the clamp or stretched by the overwrite of the last entry.
\<close>

theorem create_ranges_proportional:
  assumes "valid_freqs jd" and "create_ranges jd = Inr (rt, tr)"
    and "i < length jd" and "snd (snd (rt ! i)) < 99"
  shows "fst (rt ! i) = fst (jd ! i) \<and>
    range_size (snd (jd ! i)) (sum_list (vals jd))
      = Inr (snd (snd (rt ! i)) - fst (snd (rt ! i)) + 1) \<and>
    \<bar>(of_int (snd (snd (rt ! i)) - fst (snd (rt ! i)) + 1) :: rat)
       - 99 * of_int (snd (jd ! i)) / of_int (sum_list (vals jd))\<bar> \<le> 1 / 2 + 1 / 2 ^ 46"
proof -
  let ?T = "sum_list (vals jd)" and ?n = "snd (snd (rt ! i)) - fst (snd (rt ! i)) + 1"
  from assms(1) have d: "is_dict jd" by (simp add: valid_freqs_def)
  from create_ranges_sized [OF d assms(2-4)] assms(4)
  have k: "fst (rt ! i) = fst (jd ! i)" and n: "range_size (snd (jd ! i)) ?T = Inr ?n"
    by (simp_all add: sized_def)
  from assms(3) have "snd (jd ! i) \<in> set (vals jd)" by simp
  with valid_freqs_total(2) [OF assms(1)] have "0 \<le> snd (jd ! i)" "snd (jd ! i) \<le> ?T" by blast+
  from range_size_error [OF this valid_freqs_total(1) [OF assms(1)] n] k n show ?thesis by simp
qed

theorem create_ranges_proportional_witness:
  "valid_freqs [(''A'', 1), (''B'', 1)] \<and>
   create_ranges [(''A'', 1), (''B'', 1)] = Inr ([(''A'', (1, 50)), (''B'', (51, 99))], 99) \<and>
   range_size (snd ([(''A'', 1), (''B'', 1)] ! 0)) (sum_list (vals [(''A'', 1::int), (''B'', 1)]))
     = Inr (snd (snd ([(''A'', (1::int, 50::int)), (''B'', (51, 99))] ! 0))
            - fst (snd ([(''A'', (1::int, 50::int)), (''B'', (51, 99))] ! 0)) + 1) \<and>
   \<bar>(of_int (50 - 1 + 1) :: rat) - 99 * of_int 1 / of_int 2\<bar> \<le> 1 / 2 + 1 / 2 ^ 46"
  using create_ranges_proportional [OF valid_two_jobs create_ranges_two_jobs _ two_jobs_first_end]
    valid_two_jobs create_ranges_two_jobs by simp

end
