(* ===== verification/Spec2Isabelle.thy ===== *)
theory Spec2Isabelle
  imports App_Shell Runner_Bounds Range_Sizes
begin

text \<open>
  \<^bold>\<open>Verification of the Monte Carlo job simulation of \<^verbatim>\<open>src/app.py\<close>.\<close>

  \<^bold>\<open>The program.\<close> One Python file with three computational parts and a user
  interface around them. \<^verbatim>\<open>create_ranges\<close> (the range allocator) turns a dictionary of
  job frequencies into a dictionary of integer ranges on the scale 1 to 99, one range
  per job, sized by the job's share of the total frequency. \<^verbatim>\<open>get_job_from_random\<close>
  (the draw resolver) maps a number to the first job whose range holds it.
  \<^verbatim>\<open>run_simulations\<close> (the simulation runner) draws numbers, resolves each to a job,
  counts the jobs and returns the sequences, the per-draw details, the empirical
  probabilities and their running sum. \<^verbatim>\<open>get_job_data_ui\<close> reads the frequency table
  from a form, \<^verbatim>\<open>display_results\<close> lays the results out, and \<^verbatim>\<open>main\<close>, which Streamlit
  runs from the top on every interaction, calls them and the three parts according to
  the buttons pressed and keeps the ranges and the results in the session state.

  \<^bold>\<open>The theories\<close>, in the order of their imports.
  \<^descr>[\<open>Sim_Prelude\<close>] The exceptions the modelled code can raise (\<open>py_error\<close>), results as
  \<open>py_error + 'a\<close> with \<open>res_bind\<close>, the fold \<open>res_fold\<close> that models a \<^verbatim>\<open>for\<close> loop whose
  body may raise, with its loop rules (invariant, success, both with the iteration
  number, and the rule \<open>res_fold_outcome\<close> that gives the result or the exception),
  \<open>res_map\<close> for a comprehension whose function may raise, \<^verbatim>\<open>range(n)\<close> as \<open>py_range\<close>, and
  Python dictionaries as association lists in insertion order (\<open>dict_get\<close> raises
  \<^verbatim>\<open>KeyError\<close>, \<open>dict_set\<close> overwrites in place or appends).
  \<^descr>[\<open>Py_Float\<close>] The float operations the program uses. A finite double is the
  rational it denotes; \<open>fl64\<close> rounds a rational to the nearest double, ties to even,
  with gradual underflow; \<open>to_float\<close> adds the overflow to an infinity; \<open>int_truediv\<close> is
  \<^verbatim>\<open>int / int\<close> (correctly rounded, \<^verbatim>\<open>ZeroDivisionError\<close>, \<^verbatim>\<open>OverflowError\<close>), \<open>float_mul\<close>
  and \<open>float_add\<close> are \<^verbatim>\<open>*\<close> and \<^verbatim>\<open>+\<close>, \<open>py_round\<close> is \<^verbatim>\<open>round\<close> with one argument (half to
  even, \<^verbatim>\<open>OverflowError\<close> on an infinity, \<^verbatim>\<open>ValueError\<close> on a NaN). The lemmas give the
  sign, monotonicity and idempotence of the rounding, its error of at most half a unit
  in the last place, and the exactness of integers below \<open>2\<^sup>5\<^sup>3\<close>. These operations
  belong to the Python runtime, not to \<^verbatim>\<open>src/\<close>; they follow IEEE 754 and the language
  reference.
  \<^descr>[\<open>Py_String\<close>] The decimal text of an integer, as an f-string writes it: \<open>str_nat\<close>
  (a recursion on the quotient by 10, with its termination proof) and \<open>str_int\<close>, with
  the readers \<open>nat_of_str\<close> and \<open>int_of_str\<close>. The readers are no code of the program: they
  are the inverse that proves \<open>str_int\<close> injective, which is what makes the job names of
  the form distinct.
  \<^descr>[\<open>Range_Allocator\<close>] \<open>create_ranges\<close> models \<^verbatim>\<open>create_ranges\<close> (lines 16 to 33):
  \<open>range_size\<close> is the computation of lines 22 and 23, \<open>alloc_step\<close> one iteration of the
  loop (lines 21 to 28) on the record \<open>alloc_state\<close> of the loop's variables \<^verbatim>\<open>ranges\<close> and
  \<^verbatim>\<open>start\<close>, and \<open>create_ranges\<close> the sum of line 17, the loop, and the overwrite of the
  last entry (lines 30 and 31). \<open>valid_freqs\<close> is the input the form supplies;
  \<open>partitions_scale\<close> says that the spans of a table, in order, start at 1, follow one
  another without gap or overlap, and end at 99. The loop invariant \<open>alloc_inv\<close> (the
  spans so far are contiguous from 1 and the cursor is at most 100) gives the main
  results: on valid input the function returns, and returns a partition of the scale.
  \<^descr>[\<open>Range_Sizes\<close>] The sizes of the returned ranges. \<open>sized\<close> relates an entry of the
  range table to the entry of the frequency table it was made from; the loop keeps
  it for every entry, and \<open>range_size_error\<close> bounds the distance of the computed size
  from the exact share \<open>99 * freq / total\<close> by one half (the rounding to an integer)
  and \<open>2\<^sup>-\<^sup>4\<^sup>6\<close> (the two float roundings before it). Together: every range that ends
  before 99 is proportional to its frequency up to rounding.
  \<^descr>[\<open>Draw_Resolver\<close>] \<open>get_job_from_random\<close> models the function of the same name (lines
  36 to 40) as a recursion over the table. It is the first match of a search; on a
  partition it returns the one job whose span holds the number, and nothing exactly
  outside 1..99.
  \<^descr>[\<open>Simulation_Runner\<close>] \<open>run_simulations\<close> models the function of the same name (lines
  43 to 68). The record \<open>run_state\<close> holds its variables; \<open>draw_step\<close> is the body of the
  inner loop (lines 52 to 57), with \<open>py_randint\<close> for \<^verbatim>\<open>random.randint\<close>, \<open>count_job\<close> for
  the increment of line 54 and \<open>running_cumulative\<close> for the sum of line 55; \<open>sim_step\<close> is
  the body of the outer loop (lines 49 to 59) between \<open>start_run\<close> and \<open>finish_run\<close>;
  \<open>run_loops\<close> is lines 44 to 59 from \<open>init_state\<close>, \<open>probabilities_of\<close> line 61,
  \<open>cumulative_of\<close> lines 62 to 66. The generator is a parameter \<open>gen\<close> of type
  \<open>'g randint\<close> that maps the bounds and a generator state to a number and the next
  state, so that a run is a function of the initial state; \<open>rng_ok\<close> is the contract of
  \<^verbatim>\<open>random.randint\<close> (the number lies within the bounds). Two generators implement it:
  \<open>replay\<close>, which replays a list of numbers, each moved into the bounds, and is the
  deterministic source of the examples, and \<open>lcg\<close>, a linear congruential generator.
  The lemmas give the effect of the loops by the invariants \<open>draws_inv\<close> and \<open>sims_inv\<close>.
  \<^descr>[\<open>Runner_Outcome\<close>] Which exception \<open>run_simulations\<close> raises and when:
  \<open>run_fault\<close> lists the three faults (an empty scale, a number without a job, no
  draws), and \<open>run_simulations_outcome\<close> shows that a run returns or raises exactly one
  of them.
  \<^descr>[\<open>Draw_Machine\<close>] The specification of the runner: a machine whose state is the
  history of the draws and the generator, whose step (\<open>machine_step\<close>, with the
  executable \<open>draw_once\<close>) draws a number, resolves it, and records the cumulative
  probability \<open>cum_spec\<close> of the jobs drawn so far. \<open>coupled\<close> relates a state of the loops
  to a state of the machine: the details are the history, the counters are its
  \<open>tally\<close>. The refinement lemmas show that the nested loops of the code are a run of
  that machine, and from it that the probabilities are the relative frequencies of the
  jobs in the returned sequences and that a run is determined by the numbers drawn.
  \<^descr>[\<open>Runner_Bounds\<close>] Bounds on the floats of a run. \<open>fsum\<close> is the float sum on the
  rationals that finite doubles denote, \<open>shares\<close> the exact shares of the jobs of a
  history, \<open>sum_bound n = 3 n / 2\<^sup>5\<^sup>4\<close> the rounding error that a sum of \<open>n\<close> rounded
  shares of a whole can collect, and \<open>prefix_sums\<close> the running sums of
  \<^verbatim>\<open>cumulative_prob\<close> as a recursion. The lemmas show that the probabilities lie between
  0 and 1, that the cumulative probability recorded with a draw is the share of the
  draws made so far up to \<open>sum_bound\<close>, that it never decreases, and that at the end it
  is the sum of the probabilities and 1 within \<open>10\<^sup>-\<^sup>9\<close>. The bound of \<open>2\<^sup>5\<^sup>0\<close> jobs in
  these lemmas keeps every partial sum below 2, where one rounding costs at most
  \<open>2\<^sup>-\<^sup>5\<^sup>3\<close>; the form allows 50 jobs.
  \<^descr>[\<open>Job_Input\<close>] \<open>get_job_data_ui\<close> models the form (lines 6 to 13) as a function of
  the entries (\<open>job_form\<close>): \<open>number_input\<close> is the widget \<^verbatim>\<open>st.number_input\<close>, which returns
  the entry moved into the bounds it was created with; \<open>job_name\<close> is the key \<^verbatim>\<open>f"J{i}"\<close>.
  The lemmas show that every table the form returns satisfies \<open>valid_freqs\<close>.
  \<^descr>[\<open>Result_Display\<close>] \<open>display_results\<close> models the function of the same name (lines
  71 to 89) as the data it hands to the page (\<open>results_view\<close>): the rows of the table
  of probabilities, one panel per simulation (\<open>detail_panel\<close>) whose rows carry the text
  of the job's range (\<open>range_text\<close>, the lookup \<^verbatim>\<open>ranges[j]\<close> of line 83), and the
  summary. It raises \<^verbatim>\<open>KeyError\<close> exactly when the details name a job without a range.
  \<^descr>[\<open>App_Shell\<close>] \<open>main\<close> models one run of \<^verbatim>\<open>main\<close> (lines 92 to 136) as a function of
  the entries and buttons (\<open>ui_event\<close>) and of what lasts between runs, the session state
  (\<open>session\<close>, one optional field per key) and the generator; it returns the new
  lasting state and the page or the exception. \<open>init_job_data\<close> is lines 96 and 97,
  \<open>generate_ranges\<close> the handler of lines 102 to 107, \<open>range_lines\<close> lines 112 and 113,
  \<open>run_clicked\<close> the handler of lines 119 to 126, \<open>ranges_block\<close> lines 110 to 126,
  \<open>results_block\<close> the call of lines 130 to 136 and \<open>shown_results\<close> that call under its
  guard (line 129). \<open>render\<close> is the page as a function of the session state alone.
  \<open>reachable\<close> is the set of lasting states that runs reach from a fresh session; the
  invariant \<open>session_inv\<close> holds in all of them and rules out every exception, and in
  them a run shows \<open>render\<close> of the state it leaves.
  \<^descr>[\<open>Spec2Isabelle\<close>] This theory: the allocator with the resolver and with the runner,
  and the worked example of five draws, derived through the draw machine.

  \<^bold>\<open>Modelling decisions.\<close>
  \<^item> Python integers are \<open>int\<close>; nothing wraps.
  \<^item> Exceptions are values: \<open>Inl e\<close>. Every statement of the modelled functions that can
  raise is a \<open>res_bind\<close>. All loops are bounded \<^verbatim>\<open>for\<close> loops over a list, so every
  definition is a total function, no fuel is needed, and "returns" means "evaluates to
  \<open>Inr\<close>". The one recursion that is not structural, \<open>str_nat\<close>, has a termination proof.
  \<^item> A dictionary is an association list with distinct keys in insertion order, which
  is the iteration order of a Python dictionary.
  \<^item> The sum of floats in line 55 is evaluated from left to right starting from the
  integer 0, as \<^verbatim>\<open>sum\<close> does before Python 3.12; later versions compensate the
  rounding errors of a float sum, which can change the last bit of the recorded
  cumulative probability and nothing else.
  \<^item> The two signed zeros are one value.
  \<^item> A string is a list of bytes; the dash of the range texts is the three bytes of the
  UTF-8 encoding of U+2013.
  \<^item> Streamlit: a number input returns an integer within its bounds; a button is true
  in the run that its press starts; an exception ends the run, and the assignments to
  the session state made before it last. When \<^verbatim>\<open>run_simulations\<close> raises, the model
  leaves the generator as it was before the call; no property depends on the
  generator state after an exception. The model lets both buttons be pressed in one
  run, which Streamlit does not; the properties hold for these runs too.
  \<^item> pandas: the table of probabilities has one row per key of \<^verbatim>\<open>probabilities\<close>, with the
  cumulative probability of that key if there is one.

  \<^bold>\<open>Not modelled.\<close> The rendering: the titles and captions, the number format
  \<^verbatim>\<open>{:.4f}\<close> of the table of probabilities, the layout of the data frames and of the
  expanders. These are calls of Streamlit and pandas on the values that the model
  computes; they change no state of the program. The guard of line 138 and the module
  imports have no behaviour to model.
\<close>

section \<open>The allocator and the resolver together\<close>

text \<open>
  C4. Resolver totality on allocator output: for a valid frequency table, every number
  that the runner can draw, from 1 to the returned \<^verbatim>\<open>total_range\<close>, is resolved by
  \<^verbatim>\<open>get_job_from_random\<close> on the returned table to a job of the frequency table; the
  result \<^verbatim>\<open>None\<close> does not occur.
\<close>

theorem allocated_draw_resolves:
  assumes "valid_freqs jd" and "create_ranges jd = Inr (rt, tr)" and "1 \<le> n" and "n \<le> tr"
  shows "\<exists>job \<in> set (keys jd). get_job_from_random rt n = Some job"
proof -
  from create_ranges_valid [OF assms(1)] assms(2)
  have tr: "tr = 99" and k: "keys rt = keys jd" and part: "partitions_scale rt" by auto
  from resolver_total [OF part assms(3)] assms(4) tr
  obtain job where "get_job_from_random rt n = Some job" by auto
  moreover from this have "job \<in> set (keys rt)" by (rule resolver_Some_key)
  ultimately show ?thesis using k by auto
qed

theorem allocated_draw_resolves_witness:
  "valid_freqs [(''A'', 1), (''B'', 1)] \<and>
   create_ranges [(''A'', 1), (''B'', 1)] = Inr ([(''A'', (1, 50)), (''B'', (51, 99))], 99) \<and>
   (\<exists>job \<in> set (keys [(''A'', 1::int), (''B'', 1)]).
      get_job_from_random [(''A'', (1, 50)), (''B'', (51, 99))] 99 = Some job)"
  using allocated_draw_resolves [OF valid_two_jobs create_ranges_two_jobs, of 99]
    valid_two_jobs create_ranges_two_jobs by simp


section \<open>The allocator and the runner together\<close>

lemma allocated_resolves_scale:
  assumes "valid_freqs jd" and "create_ranges jd = Inr (rt, tr)"
  shows "tr = 99" and "resolves_scale rt tr" and "is_dict rt"
proof -
  from create_ranges_valid [OF assms(1)] assms(2)
  have tr: "tr = 99" and part: "partitions_scale rt" by auto
  from tr show "tr = 99" .
  from part tr show "resolves_scale rt tr" by (simp add: partition_resolves_scale)
  from part show "is_dict rt" by (simp add: partitions_scale_def)
qed

text \<open>
  C2. End to end: for a valid frequency table, a generator that keeps within its
  bounds, and at least one simulation of at least one draw, \<^verbatim>\<open>create_ranges\<close> returns
  and \<^verbatim>\<open>run_simulations\<close> on its result returns: no draw fails to find its job, so the
  fault that the specification reserves for that case cannot occur.
\<close>

theorem allocated_run_succeeds:
  assumes "valid_freqs jd" and "rng_ok gen" and "1 \<le> ns" and "1 \<le> jp"
  shows "\<exists>rt tr out g'. create_ranges jd = Inr (rt, tr) \<and>
    run_simulations gen rt tr ns jp g = Inr (out, g')"
proof -
  from create_ranges_valid [OF assms(1)] obtain rt tr where c: "create_ranges jd = Inr (rt, tr)"
    by auto
  note a = allocated_resolves_scale [OF assms(1) c]
  from a(1,2) assms(3,4) have "\<not> run_fault rt tr ns jp e" for e
    by (simp add: run_fault_def draw_fault_def)
  with run_simulations_outcome [OF assms(2), of rt tr ns jp g] c show ?thesis by blast
qed

theorem allocated_run_succeeds_witness:
  "valid_freqs [(''A'', 1), (''B'', 1)] \<and> rng_ok replay \<and>
   (\<exists>rt tr out g'. create_ranges [(''A'', 1), (''B'', 1)] = Inr (rt, tr) \<and>
      run_simulations replay rt tr 3 4 [5, 60] = Inr (out, g'))"
  using allocated_run_succeeds [OF valid_two_jobs rng_ok_replay, of 3 4 "[5, 60]"]
    valid_two_jobs rng_ok_replay by simp


section \<open>The worked example of the specification\<close>

lemma spec_ranges_partition:
  "partitions_scale [(''J1'', (1, 10)), (''J2'', (11, 30)), (''J3'', (31, 99))]"
  by (simp add: partitions_scale_def)

text \<open>The machine on the five numbers of the example: the numbers, the jobs, the generator.\<close>

lemma spec_machine_five_draws:
  "machine_exec replay [(''J1'', (1, 10)), (''J2'', (11, 30)), (''J3'', (31, 99))] 99 T 5
     \<lparr>m_hist = [], m_gen = [5, 15, 25, 50, 95]\<rparr> = Some a \<Longrightarrow>
   map (\<lambda>r. (fst r, fst (snd r))) (m_hist a)
     = [(5, ''J1''), (15, ''J2''), (25, ''J2''), (50, ''J3''), (95, ''J3'')] \<and> m_gen a = []"
  by (auto simp: eval_nat_numeral draw_once_def replay_def jobs_of_def)

text \<open>
  C31. The second worked example of the specification: one simulation of five draws on
  the ranges 1..10, 11..30, 31..99 with the numbers 5, 15, 25, 50, 95 replayed gives the
  sequence \<^verbatim>\<open>J1, J2, J2, J3, J3\<close>, the final counters 1, 2 and 2, and the probabilities
  that are the floats nearest to 1/5, 2/5 and 2/5. It is derived from the refinement
  to the draw machine, which is run on the five numbers.
\<close>

theorem spec_scenario_five_draws:
  "\<exists>s cum details.
     run_loops replay [(''J1'', (1, 10)), (''J2'', (11, 30)), (''J3'', (31, 99))] 99 1 5
       [5, 15, 25, 50, 95] = Inr s \<and>
     rs_job_counts s = [(''J1'', 1), (''J2'', 2), (''J3'', 2)] \<and>
     run_simulations replay [(''J1'', (1, 10)), (''J2'', (11, 30)), (''J3'', (31, 99))] 99 1 5
       [5, 15, 25, 50, 95]
       = Inr (([[''J1'', ''J2'', ''J2'', ''J3'', ''J3'']],
               [(''J1'', Fin (fl64 (1 / 5))), (''J2'', Fin (fl64 (2 / 5))), (''J3'', Fin (fl64 (2 / 5)))],
               cum, details), []) \<and>
     map (map fst) details = [[5, 15, 25, 50, 95]]"
proof -
  let ?R = "[(''J1'', (1::int, 10::int)), (''J2'', (11, 30)), (''J3'', (31, 99))]"
  let ?g = "[5, 15, 25, 50, 95] :: int list"
  have d: "is_dict ?R" by simp
  from spec_ranges_partition have "\<not> run_fault ?R 99 1 5 e" for e
    by (simp add: run_fault_def draw_fault_def partition_resolves_scale)
  with run_simulations_outcome [OF rng_ok_replay, of ?R 99 1 5 ?g]
  obtain sims probs cum details g' where
    r: "run_simulations replay ?R 99 1 5 ?g = Inr ((sims, probs, cum, details), g')"
    by (metis prod_cases4)
  then obtain s where s: "run_loops replay ?R 99 1 5 ?g = Inr s"
    and out: "sims = rs_simulations s" "details = rs_simulation_details s" "g' = rs_gen s"
    by (rule run_simulations_Inr)
  note m = run_simulations_machine [OF d r]
  from m(1) have "machine_exec replay ?R 99 (1 * 5) 5 \<lparr>m_hist = [], m_gen = ?g\<rparr>
      = Some \<lparr>m_hist = concat details, m_gen = g'\<rparr>" by simp
  from spec_machine_five_draws [OF this]
  have h: "map (\<lambda>r. (fst r, fst (snd r))) (concat details)
      = [(5, ''J1''), (15, ''J2''), (25, ''J2''), (50, ''J3''), (95, ''J3'')]" and g': "g' = []"
    by simp_all
  from m(5) obtain q where q: "details = [q]" by (cases details) auto
  from h q have nums: "map fst q = [5, 15, 25, 50, 95]"
    and jobs: "jobs_of q = [''J1'', ''J2'', ''J2'', ''J3'', ''J3'']"
    by (auto simp: jobs_of_def dest: arg_cong [where f = "map fst"] arg_cong [where f = "map snd"])
  from m(2) q jobs have sims: "sims = [[''J1'', ''J2'', ''J2'', ''J3'', ''J3'']]" by simp
  with m(3) have probs: "probs =
      [(''J1'', Fin (fl64 (1 / 5))), (''J2'', Fin (fl64 (2 / 5))), (''J3'', Fin (fl64 (2 / 5)))]"
    by simp
  from out(2) q have "rs_simulation_details s = [q]" by simp
  with jobs have "jobs_of (concat (rs_simulation_details s))
      = [''J1'', ''J2'', ''J2'', ''J3'', ''J3'']" by simp
  with run_loops_machine(2) [OF d s]
  have "rs_job_counts s = [(''J1'', 1), (''J2'', 2), (''J3'', 2)]"
    by (simp add: tally_def)
  with s r sims probs g' q nums show ?thesis by auto
qed

end
